theory Spec2Isabelle
  imports Main "HOL-Library.AList" "HOL-Library.Char_ord" "HOL-Library.List_Lexorder"
begin

section \<open>The render script of ppau-graphics\<close>

text \<open>
  \<^verbatim>\<open>render.py\<close> walks a tree of SVG sources, writes one tagged copy of every source per
  variant, asks Inkscape for the renders that are out of date, and writes a manifest.
  The script is one sequential pass over files, so the model is explicit state passing:
  a file system, a clock, the manifest dictionary, the three counters and a trace of the
  effects that reach the outside world.

  Python strings are \<open>string\<close>. The external programs are modelled by their documented
  effect on the plain placeholders the script is written for (letters, digits and
  underscores, non-empty, no line break):
  \<^item> \<^verbatim>\<open>grep -cF TAG file\<close> prints a number below 1 exactly when \<open>TAG\<close> does not occur
    in the content of the file, and prints nothing when the file cannot be read;
  \<^item> \<^verbatim>\<open>sed -e s/TAG/text/g\<close> replaces every occurrence of \<open>TAG\<close>, left to right; the
    script hands both to \<^verbatim>\<open>sed\<close> through \<^verbatim>\<open>re.escape\<close>, which leaves such a placeholder as
    it is and keeps \<^verbatim>\<open>sed\<close> from reading the text as anything but itself;
  \<^item> \<^verbatim>\<open>find\<close> lists the files below the source directory whose name ends in
    \<^verbatim>\<open>.svg\<close>;
  \<^item> Inkscape writes every export file it is asked for.
  Directories are implicit in the paths of the files, so \<^verbatim>\<open>os.makedirs\<close> leaves the
  model's file system as it is.
\<close>

subsection \<open>Strings\<close>

fun startswith :: "string \<Rightarrow> string \<Rightarrow> bool" where
  "startswith s [] = True"
| "startswith [] (p # ps) = False"
| "startswith (c # cs) (p # ps) = (c = p \<and> startswith cs ps)"

definition endswith :: "string \<Rightarrow> string \<Rightarrow> bool" where
  "endswith s p = startswith (rev s) (rev p)"

text \<open>\<open>contains tok s\<close> is Python's \<^verbatim>\<open>tok in s\<close>.\<close>

fun contains :: "string \<Rightarrow> string \<Rightarrow> bool" where
  "contains tok [] = (tok = [])"
| "contains tok (c # cs) = (startswith (c # cs) tok \<or> contains tok cs)"

text \<open>
  \<open>str_replace old new s\<close> is \<^verbatim>\<open>s.replace(old, new)\<close> for a non-empty \<open>old\<close>: the
  occurrences are found left to right and do not overlap. The script only calls it
  with a non-empty \<open>old\<close>; for the empty one the model returns \<open>s\<close>.
\<close>

function str_replace :: "string \<Rightarrow> string \<Rightarrow> string \<Rightarrow> string" where
  "str_replace old new [] = []"
| "str_replace old new (c # cs) =
     (if old \<noteq> [] \<and> startswith (c # cs) old
      then new @ str_replace old new (drop (length old) (c # cs))
      else c # str_replace old new cs)"
  by pat_completeness auto
termination
  by (relation "measure (\<lambda>(old, new, s). length s)") auto

text \<open>
  \<^verbatim>\<open>str.strip()\<close> removes the white space at both ends. The white space of ASCII is
  the characters 9 to 13, 28 to 31 and the blank.
\<close>

definition isspace :: "char \<Rightarrow> bool" where
  "isspace c = (let n = (of_char c :: nat) in (9 \<le> n \<and> n \<le> 13) \<or> (28 \<le> n \<and> n \<le> 32))"

definition strip :: "string \<Rightarrow> string" where
  "strip s = rev (dropWhile isspace (rev (dropWhile isspace s)))"

subsection \<open>Paths (\<^verbatim>\<open>os.path\<close> of a POSIX system)\<close>

type_synonym path = string

text \<open>\<open>upto_last c s\<close> is \<^verbatim>\<open>s[:s.rfind(c) + 1]\<close> and \<open>after_last c s\<close> is
  \<^verbatim>\<open>s[s.rfind(c) + 1:]\<close>; \<^verbatim>\<open>rfind\<close> gives -1 when \<open>c\<close> does not occur.\<close>

definition upto_last :: "char \<Rightarrow> string \<Rightarrow> string" where
  "upto_last c s = rev (dropWhile (\<lambda>x. x \<noteq> c) (rev s))"

definition after_last :: "char \<Rightarrow> string \<Rightarrow> string" where
  "after_last c s = rev (takeWhile (\<lambda>x. x \<noteq> c) (rev s))"

text \<open>
  \<^verbatim>\<open>
  def split(p):
      i = p.rfind('/') + 1
      head, tail = p[:i], p[i:]
      if head and head != '/' * len(head):
          head = head.rstrip('/')
      return head, tail
  \<close>
\<close>

definition path_split :: "path \<Rightarrow> path \<times> string" where
  "path_split p =
     (let head = upto_last CHR ''/'' p; tail = after_last CHR ''/'' p
      in (if head \<noteq> [] \<and> head \<noteq> replicate (length head) CHR ''/''
          then rev (dropWhile (\<lambda>x. x = CHR ''/'') (rev head))
          else head, tail))"

text \<open>
  \<^verbatim>\<open>
  def _splitext(p, sep, altsep, extsep):
      sepIndex = p.rfind(sep)
      dotIndex = p.rfind(extsep)
      if dotIndex > sepIndex:
          # skip all leading dots
          filenameIndex = sepIndex + 1
          while filenameIndex < dotIndex:
              if p[filenameIndex:filenameIndex+1] != extsep:
                  return p[:dotIndex], p[dotIndex:]
              filenameIndex += 1
      return p, p[:0]
  \<close>
  The last dot lies behind the last separator exactly when the part after the last
  separator has a dot; the loop looks for a character that is not a dot between the
  separator and the last dot.
\<close>

definition splitext :: "path \<Rightarrow> path \<times> string" where
  "splitext p =
     (let dir = upto_last CHR ''/'' p; base = after_last CHR ''/'' p
      in if CHR ''.'' \<in> set base
         then (let stem = butlast (upto_last CHR ''.'' base);
                   ext = CHR ''.'' # after_last CHR ''.'' base
               in if list_ex (\<lambda>x. x \<noteq> CHR ''.'') stem then (dir @ stem, ext) else (p, []))
         else (p, []))"

text \<open>
  \<^verbatim>\<open>os.path.join(a, b)\<close>: an absolute \<open>b\<close> discards \<open>a\<close>; otherwise the two are put
  together with one separator between them.
\<close>

definition path_join :: "path \<Rightarrow> path \<Rightarrow> path" where
  "path_join a b =
     (if startswith b ''/'' then b
      else if a = [] \<or> endswith a ''/'' then a @ b
      else a @ ''/'' @ b)"

subsection \<open>Files, configuration and state\<close>

text \<open>
  A file is its bytes and its modification time. The file system is an association
  list from paths to files, in the order \<^verbatim>\<open>find\<close> lists them. Time is a counter:
  it advances whenever a file is created.
\<close>

record disk_file =
  content :: string
  mtime :: nat

type_synonym filesystem = "(path \<times> disk_file) list"

definition path_exists :: "filesystem \<Rightarrow> path \<Rightarrow> bool" where
  "path_exists fsys p = (map_of fsys p \<noteq> None)"

text \<open>The settings after the command line and the directory of the script have been
  applied to them (lines 121 to 146).\<close>

record config =
  BACKEND_PATH :: path
  SOURCE_DIR :: path
  RENDER_DIR :: path
  AUTH_TAG_FILE :: path
  PRINT_TAG_FILE :: path
  AUTH_TAG :: string
  PRINT_TAG :: string

definition FORMATS :: "string list" where
  "FORMATS = [''pdf'', ''png'']"

type_synonym variant = "string \<times> bool \<times> bool"

definition VARIANTS :: "variant list" where
  "VARIANTS = [(''auth'', True, False), (''both'', True, True), (''none'', False, False)]"

definition MANIFEST_FILE :: path where
  "MANIFEST_FILE = ''MANIFEST.json''"

text \<open>
  What the script cannot see in its own files: whether the system is POSIX, what
  \<^verbatim>\<open>which inkscape\<close> prints (stripped), and the bytes Inkscape produces for an export
  flag and the content of a tagged SVG.
\<close>

record environment =
  posix :: bool
  which_backend :: string
  render :: "string \<Rightarrow> string \<Rightarrow> string"

datatype py_error = SystemExit | ValueError | FileNotFoundError

text \<open>The effects that leave the process, in the order they happen.\<close>

datatype event =
    Print string
  | WriteTagged path
  | Invoke "string list"
  | WriteOutput path
  | WriteManifest path

record state =
  fs :: filesystem
  clock :: nat
  manifest :: "(string \<times> string list) list"
  skipcount :: nat
  updatecount :: nat
  notagcount :: nat
  trace :: "event list"

text \<open>An exception ends the run; the error keeps the state it was raised in.\<close>

type_synonym 'a result = "(py_error \<times> state) + 'a"

subsection \<open>Loading the tags (lines 183 to 201)\<close>

text \<open>
  \<^verbatim>\<open>
  try:
      with open(AUTH_TAG_FILE) as atfp:
          auth_tag_full = atfp.read().strip()
  except FileNotFoundError:
      print("Authorisation tag file not found!", "No substitution will be performed.")
      auth_tag_full = AUTH_TAG
  \<close>
  The same block runs for the printing tag with its own message. \<open>load_tag\<close> returns
  the text and what was printed.
\<close>

definition load_tag :: "filesystem \<Rightarrow> path \<Rightarrow> string \<Rightarrow> string \<Rightarrow> string \<times> event list" where
  "load_tag fsys tag_file tag what =
     (case map_of fsys tag_file of
        Some f \<Rightarrow> (strip (content f), [])
      | None \<Rightarrow> (tag, [Print (what @ '' tag file not found! No substitution will be performed.'')]))"

subsection \<open>Path names of one source file (lines 220 to 245 and 311)\<close>

definition key_of :: "config \<Rightarrow> path \<Rightarrow> string" where
  "key_of cfg s = fst (splitext (drop (length (SOURCE_DIR cfg) + 1) s))"

definition rdir_of :: "config \<Rightarrow> path \<Rightarrow> path" where
  "rdir_of cfg s =
     path_join (RENDER_DIR cfg) (str_replace (SOURCE_DIR cfg @ ''/'') [] (fst (path_split s)))"

definition r_tag_of :: "config \<Rightarrow> path \<Rightarrow> variant \<Rightarrow> path" where
  "r_tag_of cfg s variant =
     (let sbase = snd (path_split s);
          r_tag_root = fst (splitext sbase); r_tag_ext = snd (splitext sbase)
      in path_join (rdir_of cfg s) (r_tag_root @ ''-'' @ fst variant @ r_tag_ext))"

definition r_out_of :: "config \<Rightarrow> path \<Rightarrow> variant \<Rightarrow> string \<Rightarrow> path" where
  "r_out_of cfg s variant ftype =
     (let sbase = snd (path_split s); r_tag_root = fst (splitext sbase)
      in path_join (rdir_of cfg s) (r_tag_root @ ''-'' @ fst variant) @ ''.'' @ ftype)"

subsection \<open>Tagging (lines 264 to 304)\<close>

text \<open>\<^verbatim>\<open>int(grep -cF TAG s) < 1\<close>; \<open>None\<close> when \<^verbatim>\<open>grep\<close> cannot read \<open>s\<close> and prints
  nothing, which \<^verbatim>\<open>int\<close> refuses with a \<^verbatim>\<open>ValueError\<close>.\<close>

definition grep_lt_1 :: "filesystem \<Rightarrow> string \<Rightarrow> path \<Rightarrow> bool option" where
  "grep_lt_1 fsys tag s =
     (case map_of fsys s of None \<Rightarrow> None | Some f \<Rightarrow> Some (\<not> contains tag (content f)))"

text \<open>The output of \<^verbatim>\<open>sed -e s/AUTH_TAG/a/g -e s/PRINT_TAG/p/g s\<close>: the second command
  works on the result of the first. \<^verbatim>\<open>sed\<close> prints nothing for a file it cannot read.\<close>

definition sed_output :: "config \<Rightarrow> filesystem \<Rightarrow> path \<Rightarrow> string \<Rightarrow> string \<Rightarrow> string" where
  "sed_output cfg fsys s auth_tag_var print_tag_var =
     (case map_of fsys s of
        None \<Rightarrow> []
      | Some f \<Rightarrow>
          str_replace (PRINT_TAG cfg) print_tag_var
            (str_replace (AUTH_TAG cfg) auth_tag_var (content f)))"

text \<open>
  \<^verbatim>\<open>filecmp.cmp(f1, f2)\<close> with its default \<^verbatim>\<open>shallow=True\<close>: two regular files with the
  same size and modification time are taken as equal without being read; files of
  different sizes differ; otherwise the bytes decide.
\<close>

definition filecmp_cmp :: "disk_file \<Rightarrow> disk_file \<Rightarrow> bool" where
  "filecmp_cmp f1 f2 =
     (if length (content f1) = length (content f2) \<and> mtime f1 = mtime f2 then True
      else if length (content f1) \<noteq> length (content f2) then False
      else content f1 = content f2)"

text \<open>\<^verbatim>\<open>shutil.copy2(tmp, dst)\<close> copies the bytes and the modification time.\<close>

definition copy2 :: "disk_file \<Rightarrow> path \<Rightarrow> state \<Rightarrow> state" where
  "copy2 tmp dst st =
     st\<lparr>fs := AList.update dst tmp (fs st), trace := trace st @ [WriteTagged dst]\<rparr>"

text \<open>
  Lines 286 to 304. The temporary file is new, so its modification time is the present;
  it is gone when the block ends.
\<close>

definition tag_svg :: "config \<Rightarrow> path \<Rightarrow> path \<Rightarrow> string \<Rightarrow> string \<Rightarrow> state \<Rightarrow> state" where
  "tag_svg cfg s r_tag auth_tag_var print_tag_var st =
     (let tmp = \<lparr>content = sed_output cfg (fs st) s auth_tag_var print_tag_var,
                 mtime = clock st\<rparr>;
          st1 = st\<lparr>clock := clock st + 1\<rparr>
      in case map_of (fs st) r_tag of
           Some old \<Rightarrow> if filecmp_cmp old tmp then st1 else copy2 tmp r_tag st1
         | None \<Rightarrow> copy2 tmp r_tag st1)"

subsection \<open>Output formats and the backend (lines 306 to 339)\<close>

definition export_flag :: "string \<Rightarrow> path \<Rightarrow> string list" where
  "export_flag ftype r_out =
     (if ftype = ''png'' then [''-e'', r_out]
      else if ftype = ''pdf'' then [''-A'', r_out]
      else [])"

text \<open>
  The loop over the formats. The key is in the manifest when the loop runs (line 227
  puts it there), so the append of line 313 finds its list.
\<close>

fun check_formats ::
  "config \<Rightarrow> path \<Rightarrow> string \<Rightarrow> variant \<Rightarrow> string list \<Rightarrow> state \<times> string list
     \<Rightarrow> (state \<times> string list) result" where
  "check_formats cfg s key variant [] (st, renderargs) = Inr (st, renderargs)"
| "check_formats cfg s key variant (ftype # ftypes) (st, renderargs) =
     (let r_out = r_out_of cfg s variant ftype;
          st1 = st\<lparr>manifest :=
                  AList.map_entry key (\<lambda>l. l @ [drop (length (RENDER_DIR cfg) + 1) r_out])
                    (manifest st)\<rparr>;
          regenerate = check_formats cfg s key variant ftypes
                         (st1\<lparr>updatecount := updatecount st1 + 1\<rparr>,
                          renderargs @ export_flag ftype r_out)
      in case map_of (fs st1) r_out of
           None \<Rightarrow> regenerate
         | Some out \<Rightarrow>
             (case map_of (fs st1) (r_tag_of cfg s variant) of
                None \<Rightarrow> Inl (FileNotFoundError, st1)
              | Some tag \<Rightarrow>
                  if mtime tag \<le> mtime out
                  then check_formats cfg s key variant ftypes
                         (st1\<lparr>skipcount := skipcount st1 + 1\<rparr>, renderargs)
                  else regenerate))"

text \<open>Inkscape reads the tagged SVG and writes one file per export instruction.\<close>

fun write_exports :: "environment \<Rightarrow> string \<Rightarrow> string list \<Rightarrow> state \<Rightarrow> state" where
  "write_exports env svg (flag # out # rest) st =
     write_exports env svg rest
       (st\<lparr>fs := AList.update out \<lparr>content = render env flag svg, mtime = clock st\<rparr> (fs st),
           clock := clock st + 1,
           trace := trace st @ [WriteOutput out]\<rparr>)"
| "write_exports env svg rest st = st"

definition run_backend :: "config \<Rightarrow> environment \<Rightarrow> string list \<Rightarrow> path \<Rightarrow> state \<Rightarrow> state" where
  "run_backend cfg env renderargs r_tag st =
     (let st1 = st\<lparr>trace := trace st @
                   [Invoke ([BACKEND_PATH cfg, ''-z''] @ renderargs @ [''-f'', r_tag])]\<rparr>
      in case map_of (fs st) r_tag of
           None \<Rightarrow> st1
         | Some tag \<Rightarrow> write_exports env (content tag) renderargs st1)"

subsection \<open>One variant, one file, all files (lines 217 to 339)\<close>

fun process_variant ::
  "config \<Rightarrow> environment \<Rightarrow> string \<Rightarrow> string \<Rightarrow> path \<Rightarrow> string \<Rightarrow> state \<Rightarrow> variant
     \<Rightarrow> state result" where
  "process_variant cfg env auth_tag_full print_tag_full s key st (name, inc_auth, inc_print) =
     (let auth_tag_var = (if inc_auth then auth_tag_full else []);
          print_tag_var = (if inc_print then print_tag_full else []);
          r_tag = r_tag_of cfg s (name, inc_auth, inc_print)
      in case (if inc_auth then grep_lt_1 (fs st) (AUTH_TAG cfg) s else Some False) of
           None \<Rightarrow> Inl (ValueError, st)
         | Some True \<Rightarrow> Inr (st\<lparr>notagcount := notagcount st + 1\<rparr>)
         | Some False \<Rightarrow>
             (case (if inc_print then grep_lt_1 (fs st) (PRINT_TAG cfg) s else Some False) of
                None \<Rightarrow> Inl (ValueError, st)
              | Some True \<Rightarrow> Inr (st\<lparr>notagcount := notagcount st + 1\<rparr>)
              | Some False \<Rightarrow>
                  (case check_formats cfg s key (name, inc_auth, inc_print) FORMATS
                          (tag_svg cfg s r_tag auth_tag_var print_tag_var st, []) of
                     Inl e \<Rightarrow> Inl e
                   | Inr (st2, renderargs) \<Rightarrow>
                       Inr (if renderargs \<noteq> [] then run_backend cfg env renderargs r_tag st2
                            else st2))))"

fun process_variants ::
  "config \<Rightarrow> environment \<Rightarrow> string \<Rightarrow> string \<Rightarrow> path \<Rightarrow> string \<Rightarrow> variant list \<Rightarrow> state
     \<Rightarrow> state result" where
  "process_variants cfg env auth_tag_full print_tag_full s key [] st = Inr st"
| "process_variants cfg env auth_tag_full print_tag_full s key (variant # variants) st =
     (case process_variant cfg env auth_tag_full print_tag_full s key st variant of
        Inl e \<Rightarrow> Inl e
      | Inr st1 \<Rightarrow> process_variants cfg env auth_tag_full print_tag_full s key variants st1)"

definition process_svg ::
  "config \<Rightarrow> environment \<Rightarrow> string \<Rightarrow> string \<Rightarrow> state \<Rightarrow> path \<Rightarrow> state result" where
  "process_svg cfg env auth_tag_full print_tag_full st s =
     (if length s = 0 then Inr st
      else (let key = key_of cfg s
            in process_variants cfg env auth_tag_full print_tag_full s key VARIANTS
                 (st\<lparr>manifest := AList.update key [] (manifest st)\<rparr>)))"

fun process_svgs ::
  "config \<Rightarrow> environment \<Rightarrow> string \<Rightarrow> string \<Rightarrow> path list \<Rightarrow> state \<Rightarrow> state result" where
  "process_svgs cfg env auth_tag_full print_tag_full [] st = Inr st"
| "process_svgs cfg env auth_tag_full print_tag_full (s # SVGs) st =
     (case process_svg cfg env auth_tag_full print_tag_full st s of
        Inl e \<Rightarrow> Inl e
      | Inr st1 \<Rightarrow> process_svgs cfg env auth_tag_full print_tag_full SVGs st1)"

subsection \<open>The manifest (lines 343 to 345)\<close>

text \<open>
  \<^verbatim>\<open>json.dumps\<close> with its defaults: items are separated by a comma and a blank, a key
  and its value by a colon and a blank, and every character outside the printable
  ASCII range is escaped, as are the quotation mark and the backslash. A \<open>char\<close> is
  a code point below 256.
\<close>

datatype json = JString string | JArray "json list" | JObject "(string \<times> json) list"

definition hex_digit :: "nat \<Rightarrow> char" where
  "hex_digit n = ''0123456789abcdef'' ! (n mod 16)"

definition json_escape :: "char \<Rightarrow> string" where
  "json_escape c =
     (let n = (of_char c :: nat)
      in if n = 0x22 then [CHR 0x5C, CHR 0x22]
         else if n = 0x5C then [CHR 0x5C, CHR 0x5C]
         else if n = 0x0A then [CHR 0x5C, CHR ''n'']
         else if n = 0x0D then [CHR 0x5C, CHR ''r'']
         else if n = 0x09 then [CHR 0x5C, CHR ''t'']
         else if n = 0x08 then [CHR 0x5C, CHR ''b'']
         else if n = 0x0C then [CHR 0x5C, CHR ''f'']
         else if n < 0x20 \<or> 0x7E < n
         then [CHR 0x5C, CHR ''u'', CHR ''0'', CHR ''0'', hex_digit (n div 16), hex_digit n]
         else [c])"

definition dumps_str :: "string \<Rightarrow> string" where
  "dumps_str s = [CHR 0x22] @ concat (map json_escape s) @ [CHR 0x22]"

fun join_with :: "string \<Rightarrow> string list \<Rightarrow> string" where
  "join_with sep [] = []"
| "join_with sep [x] = x"
| "join_with sep (x # y # ys) = x @ sep @ join_with sep (y # ys)"

fun json_dumps :: "json \<Rightarrow> string" where
  "json_dumps (JString s) = dumps_str s"
| "json_dumps (JArray xs) = ''['' @ join_with '', '' (map json_dumps xs) @ '']''"
| "json_dumps (JObject kvs) =
     ''{'' @ join_with '', '' (map (\<lambda>kv. dumps_str (fst kv) @ '': '' @ json_dumps (snd kv)) kvs)
       @ ''}''"

text \<open>\<open>dict_get m k\<close> is \<^verbatim>\<open>m[k]\<close> for a key of \<open>m\<close>.\<close>

definition dict_get :: "(string \<times> string list) list \<Rightarrow> string \<Rightarrow> string list" where
  "dict_get m k = (case map_of m k of Some l \<Rightarrow> l | None \<Rightarrow> [])"

text \<open>\<^verbatim>\<open>[{k : manifest[k]} for k in sorted(manifest.keys())]\<close>\<close>

definition manifest_json :: "(string \<times> string list) list \<Rightarrow> json" where
  "manifest_json m =
     JArray (map (\<lambda>k. JObject [(k, JArray (map JString (dict_get m k)))]) (sort (map fst m)))"

text \<open>\<^verbatim>\<open>print(json.dumps(...), file=mf)\<close> on a file opened for writing: whatever the
  file held is replaced by the text and a line break.\<close>

definition write_manifest :: "state \<Rightarrow> state" where
  "write_manifest st =
     st\<lparr>fs := AList.update MANIFEST_FILE
                \<lparr>content = json_dumps (manifest_json (manifest st)) @ [CHR 0x0A],
                 mtime = clock st\<rparr> (fs st),
        clock := clock st + 1,
        trace := trace st @ [WriteManifest MANIFEST_FILE]\<rparr>"

subsection \<open>The whole script\<close>

text \<open>Lines 157 to 173: the configured backend, or the one \<^verbatim>\<open>which\<close> finds on a POSIX
  system, or the end of the run.\<close>

definition resolve_backend :: "config \<Rightarrow> environment \<Rightarrow> filesystem \<Rightarrow> py_error + path" where
  "resolve_backend cfg env fsys =
     (if path_exists fsys (BACKEND_PATH cfg) then Inr (BACKEND_PATH cfg)
      else if posix env
      then (if which_backend env \<noteq> [] then Inr (which_backend env) else Inl SystemExit)
      else Inl SystemExit)"

text \<open>Lines 176 to 179: \<^verbatim>\<open>find SOURCE_DIR -type f -name "*.svg"\<close> prints one path per
  line; the script strips the output and splits it at the line breaks.\<close>

definition find_svgs :: "filesystem \<Rightarrow> path \<Rightarrow> path list" where
  "find_svgs fsys dir =
     filter (\<lambda>p. startswith p (dir @ ''/'') \<and> endswith p ''.svg'') (map fst fsys)"

definition split_lines :: "string \<Rightarrow> string list" where
  "split_lines s =
     foldr (\<lambda>c acc. if c = CHR 0x0A then [] # acc else (c # hd acc) # tl acc) s [[]]"

definition SVGs_of :: "config \<Rightarrow> filesystem \<Rightarrow> path list" where
  "SVGs_of cfg fsys =
     split_lines (strip (concat (map (\<lambda>p. p @ [CHR 0x0A]) (find_svgs fsys (SOURCE_DIR cfg)))))"

definition initial_state :: "filesystem \<Rightarrow> nat \<Rightarrow> state" where
  "initial_state fsys now =
     \<lparr>fs = fsys, clock = now, manifest = [], skipcount = 0, updatecount = 0,
      notagcount = 0, trace = []\<rparr>"

text \<open>A run of the script on a file system at a time. The summary the script prints
  last goes to the terminal and is not part of the model.\<close>

definition render_main :: "config \<Rightarrow> environment \<Rightarrow> filesystem \<Rightarrow> nat \<Rightarrow> state result" where
  "render_main cfg env fsys now =
     (let st0 = initial_state fsys now
      in case resolve_backend cfg env fsys of
           Inl e \<Rightarrow> Inl (e, st0)
         | Inr backend \<Rightarrow>
             (let cfg1 = cfg\<lparr>BACKEND_PATH := backend\<rparr>;
                  SVGs = SVGs_of cfg1 fsys;
                  auth = load_tag fsys (AUTH_TAG_FILE cfg1) (AUTH_TAG cfg1) ''Authorisation'';
                  print = load_tag fsys (PRINT_TAG_FILE cfg1) (PRINT_TAG cfg1) ''Printing'';
                  st1 = st0\<lparr>trace := snd auth @ snd print\<rparr>
              in case process_svgs cfg1 env (fst auth) (fst print) SVGs st1 of
                   Inl e \<Rightarrow> Inl e
                 | Inr st2 \<Rightarrow> Inr (write_manifest st2)))"

section \<open>Notions used to state the properties\<close>

text \<open>The three outcomes of the two tag checks of lines 267 to 281 for one variant:
  \<open>None\<close> when \<^verbatim>\<open>int\<close> raises, \<open>Some True\<close> when the variant is skipped, \<open>Some False\<close>
  when the variant goes on to be tagged.\<close>

definition tag_check :: "config \<Rightarrow> filesystem \<Rightarrow> path \<Rightarrow> variant \<Rightarrow> bool option" where
  "tag_check cfg fsys s variant =
     (case (if fst (snd variant) then grep_lt_1 fsys (AUTH_TAG cfg) s else Some False) of
        None \<Rightarrow> None
      | Some True \<Rightarrow> Some True
      | Some False \<Rightarrow>
          (if snd (snd variant) then grep_lt_1 fsys (PRINT_TAG cfg) s else Some False))"

text \<open>A variant is eligible for a source text when every placeholder it includes
  occurs in the text.\<close>

definition eligible :: "config \<Rightarrow> string \<Rightarrow> variant \<Rightarrow> bool" where
  "eligible cfg src variant =
     ((\<not> fst (snd variant) \<or> contains (AUTH_TAG cfg) src) \<and>
      (\<not> snd (snd variant) \<or> contains (PRINT_TAG cfg) src))"

text \<open>The text a variant puts in the place of the two placeholders (lines 233 to 238).\<close>

definition auth_tag_var :: "string \<Rightarrow> variant \<Rightarrow> string" where
  "auth_tag_var auth_tag_full variant = (if fst (snd variant) then auth_tag_full else [])"

definition print_tag_var :: "string \<Rightarrow> variant \<Rightarrow> string" where
  "print_tag_var print_tag_full variant = (if snd (snd variant) then print_tag_full else [])"

text \<open>An output file is stale when it is missing or strictly older than the tagged
  SVG; the batch of a tagged SVG is the export instructions of its stale formats.\<close>

definition stale :: "filesystem \<Rightarrow> path \<Rightarrow> path \<Rightarrow> bool" where
  "stale fsys r_tag r_out =
     (case map_of fsys r_out of
        None \<Rightarrow> True
      | Some out \<Rightarrow>
          (case map_of fsys r_tag of None \<Rightarrow> False | Some tag \<Rightarrow> mtime out < mtime tag))"

definition batch :: "config \<Rightarrow> path \<Rightarrow> variant \<Rightarrow> filesystem \<Rightarrow> string list \<Rightarrow> string list" where
  "batch cfg s variant fsys ftypes =
     concat (map (\<lambda>ftype.
                    if stale fsys (r_tag_of cfg s variant) (r_out_of cfg s variant ftype)
                    then export_flag ftype (r_out_of cfg s variant ftype) else [])
                 ftypes)"

definition manifest_paths :: "config \<Rightarrow> path \<Rightarrow> variant \<Rightarrow> string list \<Rightarrow> string list" where
  "manifest_paths cfg s variant ftypes =
     map (\<lambda>ftype. drop (length (RENDER_DIR cfg) + 1) (r_out_of cfg s variant ftype)) ftypes"

fun export_paths :: "string list \<Rightarrow> path list" where
  "export_paths (flag # out # rest) = out # export_paths rest"
| "export_paths rest = []"

text \<open>A file that is on the disk was last modified before the present.\<close>

definition in_the_past :: "state \<Rightarrow> path \<Rightarrow> bool" where
  "in_the_past st p = (case map_of (fs st) p of None \<Rightarrow> True | Some f \<Rightarrow> mtime f < clock st)"

text \<open>The state a step ends in, whether it returns or raises.\<close>

definition outcome_state :: "state result \<Rightarrow> state" where
  "outcome_state r = (case r of Inl (e, st) \<Rightarrow> st | Inr st \<Rightarrow> st)"

fun is_invoke :: "event \<Rightarrow> bool" where
  "is_invoke (Invoke argv) = True"
| "is_invoke e = False"

fun is_manifest_write :: "event \<Rightarrow> bool" where
  "is_manifest_write (WriteManifest p) = True"
| "is_manifest_write e = False"

fun is_render_write :: "event \<Rightarrow> bool" where
  "is_render_write (WriteTagged p) = True"
| "is_render_write (WriteOutput p) = True"
| "is_render_write e = False"

text \<open>What a path looks like below a directory, when it is below it.\<close>

definition relative_to :: "path \<Rightarrow> path \<Rightarrow> string \<Rightarrow> bool" where
  "relative_to root p rel = (p = root @ ''/'' @ rel)"

text \<open>What the loop over the sources leaves alone: the manifest file and the record of
  manifest writes; and the manifest keeps one entry per key.\<close>

definition loop_frame :: "state \<Rightarrow> state \<Rightarrow> bool" where
  "loop_frame st st' =
     (filter is_manifest_write (trace st') = filter is_manifest_write (trace st) \<and>
      map_of (fs st') MANIFEST_FILE = map_of (fs st) MANIFEST_FILE \<and>
      (\<not> distinct (map fst (manifest st)) \<or> distinct (map fst (manifest st'))))"

section \<open>Example inputs\<close>

definition ex_cfg :: config where
  "ex_cfg =
     \<lparr>BACKEND_PATH = ''/usr/bin/inkscape'', SOURCE_DIR = ''/w/Artwork'',
      RENDER_DIR = ''/w/Renders'', AUTH_TAG_FILE = ''/w/auth_tag.txt'',
      PRINT_TAG_FILE = ''/w/print_tag.txt'', AUTH_TAG = ''PPAU_AUTH_TAG'',
      PRINT_TAG = ''PPAU_PRINT_TAG''\<rparr>"

definition ex_env :: environment where
  "ex_env = \<lparr>posix = True, which_backend = [], render = (\<lambda>flag svg. flag @ svg)\<rparr>"

definition ex_src :: disk_file where
  "ex_src = \<lparr>content = ''<svg>PPAU_AUTH_TAG;PPAU_PRINT_TAG</svg>'', mtime = 2\<rparr>"

definition ex_s :: path where
  "ex_s = ''/w/Artwork/Posters/logo.svg''"

text \<open>A tree before the first run: the backend, the authorisation tag file and one
  source with both placeholders.\<close>

definition ex_fs :: filesystem where
  "ex_fs =
     [(''/usr/bin/inkscape'', \<lparr>content = [], mtime = 0\<rparr>),
      (''/w/auth_tag.txt'', \<lparr>content = '' Approved: Org A '', mtime = 1\<rparr>),
      (ex_s, ex_src)]"

text \<open>The same tree with the \<^verbatim>\<open>none\<close> variant already tagged, its document newer
  than the tagged SVG and its raster image older.\<close>

definition ex_fs_tagged :: filesystem where
  "ex_fs_tagged =
     ex_fs @
     [(''/w/Renders/Posters/logo-none.svg'', \<lparr>content = ''<svg>;</svg>'', mtime = 5\<rparr>),
      (''/w/Renders/Posters/logo-none.pdf'', \<lparr>content = ''pdf'', mtime = 6\<rparr>),
      (''/w/Renders/Posters/logo-none.png'', \<lparr>content = ''png'', mtime = 4\<rparr>)]"

definition ex_state :: "filesystem \<Rightarrow> state" where
  "ex_state fsys = (initial_state fsys 10)\<lparr>manifest := [(''Posters/logo'', [])]\<rparr>"

text \<open>A source that has the printing placeholder and not the authorisation one.\<close>

definition print_only_src :: disk_file where
  "print_only_src = \<lparr>content = ''<svg>PPAU_PRINT_TAG</svg>'', mtime = 2\<rparr>"

definition print_only_fs :: filesystem where
  "print_only_fs = [(''/usr/bin/inkscape'', \<lparr>content = [], mtime = 0\<rparr>), (ex_s, print_only_src)]"

text \<open>A source that lies in the source directory itself, not in a directory below it.\<close>

definition top_cfg :: config where
  "top_cfg = ex_cfg\<lparr>SOURCE_DIR := ''/w/Art''\<rparr>"

definition top_fs :: filesystem where
  "top_fs =
     [(''/usr/bin/inkscape'', \<lparr>content = [], mtime = 0\<rparr>),
      (''/w/auth_tag.txt'', \<lparr>content = ''Approved'', mtime = 1\<rparr>),
      (''/w/Art/logo.svg'', \<lparr>content = ''<svg>PPAU_AUTH_TAG</svg>'', mtime = 2\<rparr>)]"


section \<open>Properties\<close>

subsection \<open>Strings and paths\<close>

lemma startswith_iff: "startswith s p \<longleftrightarrow> (\<exists>t. s = p @ t)"
  by (induction s p rule: startswith.induct) auto

lemma endswith_iff: "endswith s p \<longleftrightarrow> (\<exists>t. s = t @ p)"
proof -
  have "(\<exists>t. rev s = rev p @ t) \<longleftrightarrow> (\<exists>t. s = t @ p)"
  proof
    assume "\<exists>t. rev s = rev p @ t"
    then obtain t where "rev s = rev p @ t" ..
    then have "s = rev t @ p" by (metis rev_append rev_rev_ident)
    then show "\<exists>t. s = t @ p" ..
  next
    assume "\<exists>t. s = t @ p"
    then obtain t where "s = t @ p" ..
    then have "rev s = rev p @ rev t" by simp
    then show "\<exists>t. rev s = rev p @ t" ..
  qed
  then show ?thesis by (simp add: endswith_def startswith_iff)
qed

lemma upto_after_last: "upto_last c s @ after_last c s = s"
  by (simp add: upto_last_def after_last_def flip: rev_append)

lemma upto_last_snoc:
  assumes "c \<in> set s"
  shows "butlast (upto_last c s) @ [c] = upto_last c s"
proof -
  have ne: "dropWhile (\<lambda>x. x \<noteq> c) (rev s) \<noteq> []"
    using assms by (simp add: dropWhile_eq_Nil_conv)
  then have "hd (dropWhile (\<lambda>x. x \<noteq> c) (rev s)) = c"
    using hd_dropWhile[of "\<lambda>x. x \<noteq> c" "rev s"] by simp
  with ne have "last (upto_last c s) = c" "upto_last c s \<noteq> []"
    by (simp_all add: upto_last_def last_rev)
  then show ?thesis
    by (metis append_butlast_last_id)
qed

lemma after_last_tail: "c \<notin> set w \<Longrightarrow> after_last c (u @ c # w) = w"
proof -
  assume a: "c \<notin> set w"
  have "takeWhile (\<lambda>x. x \<noteq> c) (rev w @ c # rev u) = rev w @ takeWhile (\<lambda>x. x \<noteq> c) (c # rev u)"
    by (rule takeWhile_append2) (use a in auto)
  then show ?thesis by (simp add: after_last_def)
qed

lemma splitext_append: "fst (splitext p) @ snd (splitext p) = p"
proof -
  let ?base = "after_last CHR ''/'' p"
  have "upto_last CHR ''/'' p @ butlast (upto_last CHR ''.'' ?base) @ CHR ''.'' # after_last CHR ''.'' ?base = p"
    if "CHR ''.'' \<in> set ?base"
  proof -
    have "butlast (upto_last CHR ''.'' ?base) @ CHR ''.'' # after_last CHR ''.'' ?base
          = (butlast (upto_last CHR ''.'' ?base) @ [CHR ''.'']) @ after_last CHR ''.'' ?base"
      by simp
    also have "\<dots> = ?base"
      using upto_last_snoc[OF that] by (simp only: upto_after_last)
    finally show ?thesis by (simp only: upto_after_last)
  qed
  then show ?thesis
    by (simp add: splitext_def Let_def)
qed

lemma splitext_ext_shape:
  "snd (splitext p) = [] \<or> (\<exists>w. snd (splitext p) = CHR ''.'' # w \<and> CHR ''.'' \<notin> set w)"
proof -
  have "CHR ''.'' \<notin> set (after_last CHR ''.'' b)" for b
    unfolding after_last_def set_rev by (metis (mono_tags, lifting) set_takeWhileD)
  then show ?thesis
    by (simp add: splitext_def Let_def)
qed

lemma path_split_tail: "\<exists>h. s = h @ snd (path_split s)"
  by (metis path_split_def snd_conv upto_after_last)

lemma path_join_append: "b \<noteq> [] \<Longrightarrow> path_join a (b @ c) = path_join a b @ c"
  by (cases b) (simp_all add: path_join_def)

lemma svg_ext:
  assumes "endswith s ''.svg''" and ne: "ftype \<noteq> ''svg''"
  shows "snd (splitext (snd (path_split s))) \<noteq> CHR ''.'' # ftype"
proof
  assume e: "snd (splitext (snd (path_split s))) = CHR ''.'' # ftype"
  obtain h where h: "s = h @ snd (path_split s)" using path_split_tail by blast
  obtain t where t: "s = t @ ''.svg''" using assms endswith_iff by blast
  have nd: "CHR ''.'' \<notin> set ftype"
    using splitext_ext_shape[of "snd (path_split s)"] e by auto
  have "s = (h @ fst (splitext (snd (path_split s)))) @ CHR ''.'' # ftype"
    using h splitext_append[of "snd (path_split s)"] e by (metis append.assoc)
  then obtain u where u: "t @ ''.svg'' = u @ CHR ''.'' # ftype" using t by metis
  have "after_last CHR ''.'' (t @ CHR ''.'' # ''svg'') = ''svg''"
    by (rule after_last_tail) simp
  moreover have "after_last CHR ''.'' (u @ CHR ''.'' # ftype) = ftype"
    using nd by (rule after_last_tail)
  ultimately show False using u ne by simp
qed

lemma r_out_ne_r_tag:
  assumes "endswith s ''.svg''" and "ftype \<noteq> ''svg''"
  shows "r_out_of cfg s variant ftype \<noteq> r_tag_of cfg s variant"
proof -
  let ?sbase = "snd (path_split s)"
  let ?x = "path_join (rdir_of cfg s) (fst (splitext ?sbase) @ ''-'' @ fst variant)"
  have "r_tag_of cfg s variant = ?x @ snd (splitext ?sbase)"
    using path_join_append[of "fst (splitext ?sbase) @ ''-'' @ fst variant" "rdir_of cfg s" "snd (splitext ?sbase)"]
    by (simp add: r_tag_of_def Let_def)
  moreover have "r_out_of cfg s variant ftype = ?x @ CHR ''.'' # ftype"
    by (simp add: r_out_of_def Let_def)
  ultimately show ?thesis
    using svg_ext[OF assms] by simp
qed

subsection \<open>The steps of one variant\<close>

lemma write_exports_frame:
  "p \<notin> set (export_paths args) \<Longrightarrow>
     map_of (fs (write_exports env svg args st)) p = map_of (fs st) p"
  by (induction env svg args st rule: write_exports.induct) (simp_all add: update_conv')

lemma write_exports_fields:
  "manifest (write_exports env svg args st) = manifest st \<and>
   skipcount (write_exports env svg args st) = skipcount st \<and>
   updatecount (write_exports env svg args st) = updatecount st \<and>
   notagcount (write_exports env svg args st) = notagcount st \<and>
   trace (write_exports env svg args st) = trace st @ map WriteOutput (export_paths args)"
  by (induction env svg args st rule: write_exports.induct) simp_all

lemma run_backend_frame:
  "p \<notin> set (export_paths args) \<Longrightarrow>
     map_of (fs (run_backend cfg env args r_tag st)) p = map_of (fs st) p"
  by (simp add: run_backend_def Let_def write_exports_frame split: option.splits)

lemma run_backend_fields:
  "manifest (run_backend cfg env args r_tag st) = manifest st \<and>
   skipcount (run_backend cfg env args r_tag st) = skipcount st \<and>
   updatecount (run_backend cfg env args r_tag st) = updatecount st \<and>
   notagcount (run_backend cfg env args r_tag st) = notagcount st"
  by (simp add: run_backend_def Let_def write_exports_fields split: option.splits)

lemma run_backend_trace:
  "map_of (fs st) r_tag = Some tag \<Longrightarrow>
   trace (run_backend cfg env args r_tag st) =
     trace st @ Invoke ([BACKEND_PATH cfg, ''-z''] @ args @ [''-f'', r_tag])
       # map WriteOutput (export_paths args)"
  by (simp add: run_backend_def Let_def write_exports_fields)

lemma map_entry_id: "AList.map_entry k (\<lambda>l. l) m = m"
  by (induction m) auto

lemma map_entry_append:
  "AList.map_entry k (\<lambda>l. l @ ys) (AList.map_entry k (\<lambda>l. l @ xs) m) =
   AList.map_entry k (\<lambda>l. l @ xs @ ys) m"
  by (induction m) auto

lemma check_formats_char:
  assumes "map_of (fs st) (r_tag_of cfg s variant) = Some tag"
  shows "\<exists>st'. check_formats cfg s key variant ftypes (st, renderargs) =
            Inr (st', renderargs @ batch cfg s variant (fs st) ftypes) \<and>
          fs st' = fs st \<and> clock st' = clock st \<and> trace st' = trace st \<and>
          notagcount st' = notagcount st \<and>
          manifest st' =
            AList.map_entry key (\<lambda>l. l @ manifest_paths cfg s variant ftypes) (manifest st) \<and>
          skipcount st' = skipcount st +
            length (filter (\<lambda>ftype. \<not> stale (fs st) (r_tag_of cfg s variant)
                                       (r_out_of cfg s variant ftype)) ftypes) \<and>
          updatecount st' = updatecount st +
            length (filter (\<lambda>ftype. stale (fs st) (r_tag_of cfg s variant)
                                     (r_out_of cfg s variant ftype)) ftypes)"
  using assms
proof (induction ftypes arbitrary: st renderargs)
  case Nil
  show ?case by (simp add: batch_def manifest_paths_def map_entry_id)
next
  case (Cons ftype ftypes)
  let ?r_out = "r_out_of cfg s variant ftype"
  let ?st1 = "st\<lparr>manifest := AList.map_entry key
                 (\<lambda>l. l @ [drop (length (RENDER_DIR cfg) + 1) ?r_out]) (manifest st)\<rparr>"
  let ?sk = "\<lambda>st. skipcount st + length (filter (\<lambda>ftype. \<not> stale (fs st) (r_tag_of cfg s variant)
                                       (r_out_of cfg s variant ftype)) ftypes)"
  let ?up = "\<lambda>st. updatecount st + length (filter (\<lambda>ftype. stale (fs st) (r_tag_of cfg s variant)
                                       (r_out_of cfg s variant ftype)) ftypes)"
  have tag1: "\<And>st'. fs st' = fs st \<Longrightarrow> map_of (fs st') (r_tag_of cfg s variant) = Some tag"
    using Cons.prems by simp
  show ?case
  proof (cases "stale (fs st) (r_tag_of cfg s variant) ?r_out")
    case True
    let ?st2 = "?st1\<lparr>updatecount := updatecount ?st1 + 1\<rparr>"
    obtain st' where
      "check_formats cfg s key variant ftypes (?st2, renderargs @ export_flag ftype ?r_out) =
         Inr (st', (renderargs @ export_flag ftype ?r_out) @ batch cfg s variant (fs ?st2) ftypes)"
      "fs st' = fs st" "clock st' = clock st" "trace st' = trace st"
      "notagcount st' = notagcount st"
      "manifest st' =
         AList.map_entry key (\<lambda>l. l @ manifest_paths cfg s variant ftypes) (manifest ?st1)"
      "skipcount st' = ?sk ?st2" "updatecount st' = ?up ?st2"
      using Cons.IH[of ?st2 "renderargs @ export_flag ftype ?r_out"] tag1
      by auto
    with True Cons.prems show ?thesis
      by (auto simp: stale_def batch_def manifest_paths_def map_entry_append Let_def
               split: option.splits)
  next
    case False
    let ?st2 = "?st1\<lparr>skipcount := skipcount ?st1 + 1\<rparr>"
    obtain st' where
      "check_formats cfg s key variant ftypes (?st2, renderargs) =
         Inr (st', renderargs @ batch cfg s variant (fs ?st2) ftypes)"
      "fs st' = fs st" "clock st' = clock st" "trace st' = trace st"
      "notagcount st' = notagcount st"
      "manifest st' =
         AList.map_entry key (\<lambda>l. l @ manifest_paths cfg s variant ftypes) (manifest ?st1)"
      "skipcount st' = ?sk ?st2" "updatecount st' = ?up ?st2"
      using Cons.IH[of ?st2 "renderargs"] tag1
      by auto
    with False Cons.prems show ?thesis
      by (auto simp: stale_def batch_def manifest_paths_def map_entry_append Let_def
               split: option.splits)
  qed
qed

lemma tag_svg_fields:
  "clock (tag_svg cfg s r_tag a p st) = clock st + 1 \<and>
   manifest (tag_svg cfg s r_tag a p st) = manifest st \<and>
   skipcount (tag_svg cfg s r_tag a p st) = skipcount st \<and>
   updatecount (tag_svg cfg s r_tag a p st) = updatecount st \<and>
   notagcount (tag_svg cfg s r_tag a p st) = notagcount st"
  by (simp add: tag_svg_def copy2_def Let_def split: option.splits)

lemma tag_svg_exists:
  "\<exists>tag. map_of (fs (tag_svg cfg s r_tag a p st)) r_tag = Some tag"
  by (simp add: tag_svg_def copy2_def Let_def update_conv' split: option.splits)

lemma process_variant_cases:
  "process_variant cfg env a p s key st variant =
     (case tag_check cfg (fs st) s variant of
        None \<Rightarrow> Inl (ValueError, st)
      | Some True \<Rightarrow> Inr (st\<lparr>notagcount := notagcount st + 1\<rparr>)
      | Some False \<Rightarrow>
          (case check_formats cfg s key variant FORMATS
                  (tag_svg cfg s (r_tag_of cfg s variant) (auth_tag_var a variant)
                     (print_tag_var p variant) st, []) of
             Inl e \<Rightarrow> Inl e
           | Inr (st2, renderargs) \<Rightarrow>
               Inr (if renderargs \<noteq> []
                    then run_backend cfg env renderargs (r_tag_of cfg s variant) st2
                    else st2)))"
proof -
  obtain name inc_auth inc_print where v: "variant = (name, inc_auth, inc_print)"
    by (cases variant) auto
  show ?thesis
    unfolding v
    by (simp add: tag_check_def auth_tag_var_def print_tag_var_def Let_def
             split: option.splits bool.splits)
qed

declare process_variant.simps [simp del]

lemma eligible_tag_check:
  "map_of fsys s = Some src \<Longrightarrow>
     tag_check cfg fsys s variant = Some (\<not> eligible cfg (content src) variant)"
  by (auto simp: tag_check_def eligible_def grep_lt_1_def split: option.splits bool.splits)

text \<open>What a variant that passes the tag checks does to the state.\<close>

lemma process_variant_go:
  fixes a p :: string
  assumes go: "tag_check cfg (fs st) s variant = Some False"
  defines "st1 \<equiv> tag_svg cfg s (r_tag_of cfg s variant)
                   (auth_tag_var a variant) (print_tag_var p variant) st"
  defines "args \<equiv> batch cfg s variant (fs st1) FORMATS"
  shows "\<exists>st2. process_variant cfg env a p s key st variant =
            Inr (if args \<noteq> [] then run_backend cfg env args (r_tag_of cfg s variant) st2
                 else st2) \<and>
          fs st2 = fs st1 \<and> clock st2 = clock st1 \<and> trace st2 = trace st1 \<and>
          notagcount st2 = notagcount st \<and>
          manifest st2 =
            AList.map_entry key (\<lambda>l. l @ manifest_paths cfg s variant FORMATS) (manifest st)"
proof -
  obtain tag where tag: "map_of (fs st1) (r_tag_of cfg s variant) = Some tag"
    unfolding st1_def using tag_svg_exists by blast
  obtain st2 where st2:
    "check_formats cfg s key variant FORMATS (st1, []) =
       Inr (st2, [] @ batch cfg s variant (fs st1) FORMATS)"
    "fs st2 = fs st1" "clock st2 = clock st1" "trace st2 = trace st1"
    "notagcount st2 = notagcount st1"
    "manifest st2 =
       AList.map_entry key (\<lambda>l. l @ manifest_paths cfg s variant FORMATS) (manifest st1)"
    using check_formats_char[OF tag, of key FORMATS "[]"] by blast
  have "process_variant cfg env a p s key st variant =
          Inr (if args \<noteq> [] then run_backend cfg env args (r_tag_of cfg s variant) st2 else st2)"
    using st2(1) go unfolding process_variant_cases args_def st1_def by simp
  with st2 show ?thesis
    by (auto simp: st1_def tag_svg_fields)
qed

lemma export_paths_batch:
  "set (export_paths (batch cfg s variant fsys FORMATS)) \<subseteq>
     {r_out_of cfg s variant ''pdf'', r_out_of cfg s variant ''png''}"
  by (simp add: batch_def FORMATS_def export_flag_def)

lemma r_tag_not_exported:
  "endswith s ''.svg'' \<Longrightarrow>
     r_tag_of cfg s variant \<notin> set (export_paths (batch cfg s variant fsys FORMATS))"
  using export_paths_batch[of cfg s variant fsys]
    r_out_ne_r_tag[of s "''pdf''" cfg variant] r_out_ne_r_tag[of s "''png''" cfg variant]
  by auto


subsection \<open>Tag gating\<close>




subsection \<open>Tagging\<close>

lemma filecmp_same_content: "content old = content tmp \<Longrightarrow> filecmp_cmp old tmp"
  by (simp add: filecmp_cmp_def)

lemma filecmp_other_content:
  "content old \<noteq> content tmp \<Longrightarrow> mtime old \<noteq> mtime tmp \<Longrightarrow> \<not> filecmp_cmp old tmp"
  by (simp add: filecmp_cmp_def)

lemma tag_svg_kept:
  assumes "map_of (fs st) r_tag = Some old"
    and "content old = sed_output cfg (fs st) s a p"
  shows "fs (tag_svg cfg s r_tag a p st) = fs st \<and> trace (tag_svg cfg s r_tag a p st) = trace st"
  using assms by (simp add: tag_svg_def Let_def filecmp_same_content)

lemma tag_svg_written:
  assumes "map_of (fs st) r_tag = None \<or>
           (\<exists>old. map_of (fs st) r_tag = Some old \<and> content old \<noteq> sed_output cfg (fs st) s a p \<and>
                  mtime old \<noteq> clock st)"
  shows "fs (tag_svg cfg s r_tag a p st) =
           AList.update r_tag \<lparr>content = sed_output cfg (fs st) s a p, mtime = clock st\<rparr> (fs st) \<and>
         trace (tag_svg cfg s r_tag a p st) = trace st @ [WriteTagged r_tag]"
  using assms by (auto simp: tag_svg_def Let_def copy2_def filecmp_other_content)

lemma tag_svg_trace:
  "trace (tag_svg cfg s r_tag a p st) = trace st \<or>
   trace (tag_svg cfg s r_tag a p st) = trace st @ [WriteTagged r_tag]"
  by (simp add: tag_svg_def Let_def copy2_def split: option.splits)

lemma tag_svg_content:
  assumes "in_the_past st r_tag"
  shows "\<exists>tag. map_of (fs (tag_svg cfg s r_tag a p st)) r_tag = Some tag \<and>
           content tag = sed_output cfg (fs st) s a p"
proof (cases "map_of (fs st) r_tag")
  case None
  then show ?thesis using tag_svg_written[of st r_tag cfg s a p] by (simp add: update_conv')
next
  case (Some old)
  show ?thesis
  proof (cases "content old = sed_output cfg (fs st) s a p")
    case True
    then show ?thesis using Some tag_svg_kept[of st r_tag old cfg s a p] by simp
  next
    case False
    moreover have "mtime old \<noteq> clock st" using assms Some by (simp add: in_the_past_def)
    ultimately show ?thesis
      using Some tag_svg_written[of st r_tag cfg s a p] by (simp add: update_conv')
  qed
qed

text \<open>The tagged SVG and the trace after a variant that passes the tag checks.\<close>

lemma process_variant_after:
  fixes a p :: string
  assumes go: "tag_check cfg (fs st) s variant = Some False"
  defines "r_tag \<equiv> r_tag_of cfg s variant"
  defines "st1 \<equiv> tag_svg cfg s r_tag (auth_tag_var a variant) (print_tag_var p variant) st"
  defines "args \<equiv> batch cfg s variant (fs st1) FORMATS"
  shows "\<exists>st'. process_variant cfg env a p s key st variant = Inr st' \<and>
          (endswith s ''.svg'' \<longrightarrow> map_of (fs st') r_tag = map_of (fs st1) r_tag) \<and>
          trace st' = trace st1 @
            (if args = [] then []
             else Invoke ([BACKEND_PATH cfg, ''-z''] @ args @ [''-f'', r_tag])
                    # map WriteOutput (export_paths args))"
proof -
  obtain st2 where st2:
    "process_variant cfg env a p s key st variant =
       Inr (if args \<noteq> [] then run_backend cfg env args r_tag st2 else st2)"
    "fs st2 = fs st1" "trace st2 = trace st1"
    using process_variant_go[OF go, where a=a and p=p and env=env and key=key]
    unfolding r_tag_def st1_def args_def by blast
  obtain tag where tag: "map_of (fs st2) r_tag = Some tag"
    using tag_svg_exists[of cfg s r_tag] st2(2) unfolding st1_def by metis
  let ?st' = "if args \<noteq> [] then run_backend cfg env args r_tag st2 else st2"
  have "map_of (fs ?st') r_tag = map_of (fs st1) r_tag" if "endswith s ''.svg''"
    using r_tag_not_exported[OF that, of cfg variant "fs st1"] st2(2)
    by (simp add: run_backend_frame r_tag_def args_def)
  moreover have "trace ?st' = trace st1 @
            (if args = [] then []
             else Invoke ([BACKEND_PATH cfg, ''-z''] @ args @ [''-f'', r_tag])
                    # map WriteOutput (export_paths args))"
    using run_backend_trace[OF tag] st2(3) by simp
  ultimately show ?thesis using st2(1) by blast
qed

subsection \<open>Staleness\<close>

text \<open>
  Claim C4. For a tagged SVG that is on the disk, the loop over the formats returns the
  batch of the stale formats: the export path of a format is in the batch exactly when
  the output file is missing or strictly older than the tagged SVG, so a format whose
  output exists with a modification time at or after the tagged SVG's is skipped. Every
  format is counted once, as skipped or as to be rendered, and every format to be
  rendered adds one flag and one path to the batch.
\<close>

theorem stale_formats_batched:
  assumes tag: "map_of (fs st) (r_tag_of cfg s variant) = Some tag"
  shows "\<exists>st' renderargs.
           check_formats cfg s key variant FORMATS (st, []) = Inr (st', renderargs) \<and>
           renderargs = batch cfg s variant (fs st) FORMATS \<and>
           (\<forall>ftype \<in> set FORMATS.
              (r_out_of cfg s variant ftype \<in> set (export_paths renderargs)) =
              (case map_of (fs st) (r_out_of cfg s variant ftype) of
                 None \<Rightarrow> True
               | Some out \<Rightarrow> mtime out < mtime tag)) \<and>
           skipcount st' + updatecount st' = skipcount st + updatecount st + length FORMATS \<and>
           2 * updatecount st' = 2 * updatecount st + length renderargs"
proof -
  let ?pdf = "r_out_of cfg s variant ''pdf''" and ?png = "r_out_of cfg s variant ''png''"
  let ?r_tag = "r_tag_of cfg s variant"
  obtain st' where st':
    "check_formats cfg s key variant FORMATS (st, []) =
       Inr (st', [] @ batch cfg s variant (fs st) FORMATS)"
    "skipcount st' = skipcount st +
       length (filter (\<lambda>ftype. \<not> stale (fs st) ?r_tag (r_out_of cfg s variant ftype)) FORMATS)"
    "updatecount st' = updatecount st +
       length (filter (\<lambda>ftype. stale (fs st) ?r_tag (r_out_of cfg s variant ftype)) FORMATS)"
    using check_formats_char[OF tag, of key FORMATS "[]"] by blast
  have ne: "?pdf \<noteq> ?png"
    by (simp add: r_out_of_def Let_def)
  have b: "batch cfg s variant (fs st) FORMATS =
             (if stale (fs st) ?r_tag ?pdf then [''-A'', ?pdf] else []) @
             (if stale (fs st) ?r_tag ?png then [''-e'', ?png] else [])"
    by (simp add: batch_def FORMATS_def export_flag_def)
  have s: "stale (fs st) ?r_tag r_out =
             (case map_of (fs st) r_out of None \<Rightarrow> True | Some out \<Rightarrow> mtime out < mtime tag)"
    for r_out
    using tag by (simp add: stale_def split: option.splits)
  have m: "\<forall>ftype \<in> set FORMATS.
              (r_out_of cfg s variant ftype \<in> set (export_paths (batch cfg s variant (fs st) FORMATS))) =
              (case map_of (fs st) (r_out_of cfg s variant ftype) of
                 None \<Rightarrow> True
               | Some out \<Rightarrow> mtime out < mtime tag)"
    unfolding b s[symmetric] using ne by (auto simp: FORMATS_def)
  have c1: "skipcount st' + updatecount st' = skipcount st + updatecount st + length FORMATS"
    using st'(2,3) sum_length_filter_compl[of "\<lambda>ftype. stale (fs st) ?r_tag (r_out_of cfg s variant ftype)" FORMATS]
    by simp
  have c2: "2 * updatecount st' = 2 * updatecount st + length (batch cfg s variant (fs st) FORMATS)"
    unfolding st'(3) b by (simp add: FORMATS_def)
  from st'(1) m c1 c2 show ?thesis by simp
qed

theorem stale_formats_batched_witness:
  "map_of (fs (ex_state ex_fs_tagged)) (r_tag_of ex_cfg ex_s (''none'', False, False)) =
     Some \<lparr>content = ''<svg>;</svg>'', mtime = 5\<rparr> \<and>
   (\<exists>st'. check_formats ex_cfg ex_s ''Posters/logo'' (''none'', False, False) FORMATS
             (ex_state ex_fs_tagged, []) =
           Inr (st', [''-e'', ''/w/Renders/Posters/logo-none.png'']) \<and>
         skipcount st' + updatecount st' = 2 \<and> updatecount st' = 1)"
proof -
  have h: "map_of (fs (ex_state ex_fs_tagged)) (r_tag_of ex_cfg ex_s (''none'', False, False)) =
             Some \<lparr>content = ''<svg>;</svg>'', mtime = 5\<rparr>"
    by code_simp
  have b: "batch ex_cfg ex_s (''none'', False, False) (fs (ex_state ex_fs_tagged)) FORMATS =
             [''-e'', ''/w/Renders/Posters/logo-none.png'']"
    by code_simp
  have c: "skipcount (ex_state ex_fs_tagged) = 0" "updatecount (ex_state ex_fs_tagged) = 0"
    by (simp_all add: ex_state_def initial_state_def)
  show ?thesis
    using h stale_formats_batched[OF h, of "''Posters/logo''"] c
    unfolding b by (auto simp: FORMATS_def)
qed

subsection \<open>The backend\<close>

text \<open>
  Claim C5. A variant that passes the tag checks invokes the backend once when its
  batch is not empty and not at all when it is empty. The one invocation carries the
  batch, that is one export flag and path per stale format, and the tagged SVG as the
  input file.
\<close>

theorem backend_invoked_once_per_batch:
  fixes auth_tag_full print_tag_full :: string
  assumes go: "tag_check cfg (fs st) s variant = Some False"
  defines "r_tag \<equiv> r_tag_of cfg s variant"
  defines "st1 \<equiv> tag_svg cfg s r_tag (auth_tag_var auth_tag_full variant)
                   (print_tag_var print_tag_full variant) st"
  defines "args \<equiv> batch cfg s variant (fs st1) FORMATS"
  shows "\<exists>st' evs. process_variant cfg env auth_tag_full print_tag_full s key st variant = Inr st' \<and>
           trace st' = trace st @ evs \<and>
           filter is_invoke evs =
             (if args = [] then []
              else [Invoke ([BACKEND_PATH cfg, ''-z''] @ args @ [''-f'', r_tag])]) \<and>
           export_paths args =
             map (r_out_of cfg s variant) (filter (\<lambda>ftype. stale (fs st1) r_tag (r_out_of cfg s variant ftype)) FORMATS) \<and>
           length args = 2 * length (export_paths args)"
proof -
  obtain st' where st':
    "process_variant cfg env auth_tag_full print_tag_full s key st variant = Inr st'"
    "trace st' = trace st1 @
            (if args = [] then []
             else Invoke ([BACKEND_PATH cfg, ''-z''] @ args @ [''-f'', r_tag])
                    # map WriteOutput (export_paths args))"
    using process_variant_after[OF go, where a=auth_tag_full and p=print_tag_full and env=env and key=key]
    unfolding r_tag_def st1_def args_def by blast
  obtain w where w: "trace st1 = trace st @ w" "w = [] \<or> w = [WriteTagged r_tag]"
    using tag_svg_trace[of cfg s r_tag "auth_tag_var auth_tag_full variant"
        "print_tag_var print_tag_full variant" st]
    unfolding st1_def by auto
  let ?evs = "w @ (if args = [] then []
             else Invoke ([BACKEND_PATH cfg, ''-z''] @ args @ [''-f'', r_tag])
                    # map WriteOutput (export_paths args))"
  have t: "trace st' = trace st @ ?evs" using st'(2) w(1) by simp
  have f: "filter is_invoke ?evs =
             (if args = [] then []
              else [Invoke ([BACKEND_PATH cfg, ''-z''] @ args @ [''-f'', r_tag])])"
    using w(2) by (auto simp: filter_empty_conv)
  have e: "export_paths args =
             map (r_out_of cfg s variant) (filter (\<lambda>ftype. stale (fs st1) r_tag (r_out_of cfg s variant ftype)) FORMATS)"
    by (simp add: args_def batch_def FORMATS_def export_flag_def r_tag_def)
  have l: "length args = 2 * length (export_paths args)"
    by (simp add: args_def batch_def FORMATS_def export_flag_def)
  from st'(1) t f e l show ?thesis by blast
qed

theorem backend_invoked_once_per_batch_witness:
  "tag_check ex_cfg (fs (ex_state ex_fs_tagged)) ex_s (''none'', False, False) = Some False \<and>
   (\<exists>st' evs. process_variant ex_cfg ex_env ''Approved'' ''Print Shop'' ex_s ''Posters/logo''
                 (ex_state ex_fs_tagged) (''none'', False, False) = Inr st' \<and>
              trace st' = trace (ex_state ex_fs_tagged) @ evs \<and>
              filter is_invoke evs =
                [Invoke [''/usr/bin/inkscape'', ''-z'', ''-e'', ''/w/Renders/Posters/logo-none.png'',
                         ''-f'', ''/w/Renders/Posters/logo-none.svg'']]) \<and>
   tag_check ex_cfg (fs (ex_state ex_fs_tagged)) ex_s (''auth'', True, False) = Some False \<and>
   (\<exists>st' evs. process_variant ex_cfg ex_env ''Approved'' ''Print Shop'' ex_s ''Posters/logo''
                 (ex_state ex_fs_tagged) (''auth'', True, False) = Inr st' \<and>
              trace st' = trace (ex_state ex_fs_tagged) @ evs \<and>
              filter is_invoke evs =
                [Invoke [''/usr/bin/inkscape'', ''-z'',
                         ''-A'', ''/w/Renders/Posters/logo-auth.pdf'',
                         ''-e'', ''/w/Renders/Posters/logo-auth.png'',
                         ''-f'', ''/w/Renders/Posters/logo-auth.svg'']])"
proof -
  have g1: "tag_check ex_cfg (fs (ex_state ex_fs_tagged)) ex_s (''none'', False, False) = Some False"
    by code_simp
  have g2: "tag_check ex_cfg (fs (ex_state ex_fs_tagged)) ex_s (''auth'', True, False) = Some False"
    by code_simp
  have b1: "batch ex_cfg ex_s (''none'', False, False)
              (fs (tag_svg ex_cfg ex_s ''/w/Renders/Posters/logo-none.svg''  
                     (auth_tag_var ''Approved'' (''none'', False, False))
                     (print_tag_var ''Print Shop'' (''none'', False, False))
                     (ex_state ex_fs_tagged))) FORMATS =
            [''-e'', ''/w/Renders/Posters/logo-none.png'']"
    by code_simp
  have b2: "batch ex_cfg ex_s (''auth'', True, False)
              (fs (tag_svg ex_cfg ex_s ''/w/Renders/Posters/logo-auth.svg''  
                     (auth_tag_var ''Approved'' (''auth'', True, False))
                     (print_tag_var ''Print Shop'' (''auth'', True, False))
                     (ex_state ex_fs_tagged))) FORMATS =
            [''-A'', ''/w/Renders/Posters/logo-auth.pdf'', ''-e'', ''/w/Renders/Posters/logo-auth.png'']"
    by code_simp
  have r1: "r_tag_of ex_cfg ex_s (''none'', False, False) = ''/w/Renders/Posters/logo-none.svg''"
    by code_simp
  have r2: "r_tag_of ex_cfg ex_s (''auth'', True, False) = ''/w/Renders/Posters/logo-auth.svg''"
    by code_simp
  have p: "BACKEND_PATH ex_cfg = ''/usr/bin/inkscape''"
    by (simp add: ex_cfg_def)
  have w1: "\<exists>st' evs. process_variant ex_cfg ex_env ''Approved'' ''Print Shop'' ex_s ''Posters/logo''
                 (ex_state ex_fs_tagged) (''none'', False, False) = Inr st' \<and>
              trace st' = trace (ex_state ex_fs_tagged) @ evs \<and>
              filter is_invoke evs =
                [Invoke [''/usr/bin/inkscape'', ''-z'', ''-e'', ''/w/Renders/Posters/logo-none.png'',
                         ''-f'', ''/w/Renders/Posters/logo-none.svg'']]"
    using backend_invoked_once_per_batch[OF g1, where auth_tag_full="''Approved''"
        and print_tag_full="''Print Shop''" and env=ex_env and key="''Posters/logo''"]
    unfolding r1 b1 p by auto
  have w2: "\<exists>st' evs. process_variant ex_cfg ex_env ''Approved'' ''Print Shop'' ex_s ''Posters/logo''
                 (ex_state ex_fs_tagged) (''auth'', True, False) = Inr st' \<and>
              trace st' = trace (ex_state ex_fs_tagged) @ evs \<and>
              filter is_invoke evs =
                [Invoke [''/usr/bin/inkscape'', ''-z'',
                         ''-A'', ''/w/Renders/Posters/logo-auth.pdf'',
                         ''-e'', ''/w/Renders/Posters/logo-auth.png'',
                         ''-f'', ''/w/Renders/Posters/logo-auth.svg'']]"
    using backend_invoked_once_per_batch[OF g2, where auth_tag_full="''Approved''"
        and print_tag_full="''Print Shop''" and env=ex_env and key="''Posters/logo''"]
    unfolding r2 b2 p by auto
  from g1 g2 w1 w2 show ?thesis by blast
qed



subsection \<open>The content of a tagged SVG\<close>




subsection \<open>A tagged SVG that would not change is left alone\<close>




subsection \<open>Loading the tags\<close>









subsection \<open>The loop over the sources\<close>

lemma path_join_set: "set b \<subseteq> set (path_join a b)"
  by (auto simp: path_join_def)

lemma dash_in_r_tag: "CHR ''-'' \<in> set (r_tag_of cfg s variant)"
proof -
  have "CHR ''-'' \<in> set (fst (splitext (snd (path_split s))) @ ''-'' @ fst variant @
                            snd (splitext (snd (path_split s))))"
    by simp
  then show ?thesis
    unfolding r_tag_of_def Let_def using path_join_set by blast
qed

lemma dash_in_r_out: "CHR ''-'' \<in> set (r_out_of cfg s variant ftype)"
proof -
  have "CHR ''-'' \<in> set (fst (splitext (snd (path_split s))) @ ''-'' @ fst variant)"
    by simp
  then have "CHR ''-'' \<in> set (path_join (rdir_of cfg s)
                (fst (splitext (snd (path_split s))) @ ''-'' @ fst variant))"
    using path_join_set by blast
  then show ?thesis
    unfolding r_out_of_def Let_def by simp
qed

lemma manifest_file_no_dash: "CHR ''-'' \<notin> set MANIFEST_FILE"
  by (simp add: MANIFEST_FILE_def)

lemma r_tag_not_manifest_file: "r_tag_of cfg s variant \<noteq> MANIFEST_FILE"
  using dash_in_r_tag[of cfg s variant] manifest_file_no_dash by metis

lemma r_out_not_manifest_file: "r_out_of cfg s variant ftype \<noteq> MANIFEST_FILE"
  using dash_in_r_out[of cfg s variant ftype] manifest_file_no_dash by metis

lemma manifest_file_not_exported:
  "MANIFEST_FILE \<notin> set (export_paths (batch cfg s variant fsys FORMATS))"
proof
  assume "MANIFEST_FILE \<in> set (export_paths (batch cfg s variant fsys FORMATS))"
  then have "MANIFEST_FILE = r_out_of cfg s variant ''pdf'' \<or>
             MANIFEST_FILE = r_out_of cfg s variant ''png''"
    using export_paths_batch[of cfg s variant fsys] by auto
  then show False
    using r_out_not_manifest_file[of cfg s variant] by metis
qed

lemma loop_frame_refl: "loop_frame st st"
  by (simp add: loop_frame_def)

lemma loop_frame_trans: "loop_frame st st1 \<Longrightarrow> loop_frame st1 st2 \<Longrightarrow> loop_frame st st2"
  by (auto simp: loop_frame_def)

lemma tag_svg_frame:
  "r_tag \<noteq> q \<Longrightarrow> map_of (fs (tag_svg cfg s r_tag a p st)) q = map_of (fs st) q"
  by (simp add: tag_svg_def copy2_def Let_def update_conv' split: option.splits)

text \<open>Where a variant leaves the state, whether it returns or raises.\<close>

lemma process_variant_outcome:
  fixes a p s key :: string and cfg :: config and env :: environment and st :: state
    and variant :: variant
  defines "st' \<equiv> outcome_state (process_variant cfg env a p s key st variant)"
  shows "\<exists>ys. manifest st' = AList.map_entry key (\<lambda>l. l @ ys) (manifest st) \<and>
           (tag_check cfg (fs st) s variant = Some False \<longrightarrow>
              ys = manifest_paths cfg s variant FORMATS \<and>
              (\<exists>st''. process_variant cfg env a p s key st variant = Inr st'')) \<and>
           filter is_manifest_write (trace st') = filter is_manifest_write (trace st) \<and>
           map_of (fs st') MANIFEST_FILE = map_of (fs st) MANIFEST_FILE"
proof (cases "tag_check cfg (fs st) s variant")
  case None
  then have "st' = st" by (simp add: st'_def process_variant_cases outcome_state_def)
  then show ?thesis using None map_entry_id[of key "manifest st"]
    by (intro exI[of _ "[]"]) simp
next
  case (Some b)
  show ?thesis
  proof (cases b)
    case True
    then have "st' = st\<lparr>notagcount := notagcount st + 1\<rparr>"
      using Some by (simp add: st'_def process_variant_cases outcome_state_def)
    then show ?thesis using Some True map_entry_id[of key "manifest st"]
      by (intro exI[of _ "[]"]) simp
  next
    case False
    then have go: "tag_check cfg (fs st) s variant = Some False" using Some by simp
    let ?r_tag = "r_tag_of cfg s variant"
    let ?st1 = "tag_svg cfg s ?r_tag (auth_tag_var a variant) (print_tag_var p variant) st"
    let ?args = "batch cfg s variant (fs ?st1) FORMATS"
    obtain st2 where st2:
      "process_variant cfg env a p s key st variant =
         Inr (if ?args \<noteq> [] then run_backend cfg env ?args ?r_tag st2 else st2)"
      "fs st2 = fs ?st1" "trace st2 = trace ?st1"
      "manifest st2 =
         AList.map_entry key (\<lambda>l. l @ manifest_paths cfg s variant FORMATS) (manifest st)"
      using process_variant_go[OF go, where a=a and p=p and env=env and key=key] by blast
    have st': "st' = (if ?args \<noteq> [] then run_backend cfg env ?args ?r_tag st2 else st2)"
      using st2(1) by (simp add: st'_def outcome_state_def)
    obtain tag where tag: "map_of (fs st2) ?r_tag = Some tag"
      using tag_svg_exists[of cfg s ?r_tag] st2(2) by metis
    have m: "manifest st' =
               AList.map_entry key (\<lambda>l. l @ manifest_paths cfg s variant FORMATS) (manifest st)"
      using st2(4) by (simp add: st' run_backend_fields)
    have t1: "filter is_manifest_write (trace ?st1) = filter is_manifest_write (trace st)"
      using tag_svg_trace[of cfg s ?r_tag "auth_tag_var a variant" "print_tag_var p variant" st]
      by auto
    have t: "filter is_manifest_write (trace st') = filter is_manifest_write (trace st)"
      using t1 st2(3) run_backend_trace[OF tag, of cfg env ?args]
      by (auto simp: st' filter_empty_conv)
    have f1: "map_of (fs ?st1) MANIFEST_FILE = map_of (fs st) MANIFEST_FILE"
      using r_tag_not_manifest_file[of cfg s variant] by (rule tag_svg_frame)
    have f: "map_of (fs st') MANIFEST_FILE = map_of (fs st) MANIFEST_FILE"
      using f1 st2(2) manifest_file_not_exported[of cfg s variant "fs ?st1"]
      by (simp add: st' run_backend_frame)
    from m t f go st2(1) show ?thesis by blast
  qed
qed

lemma process_variants_outcome:
  fixes a p :: string
  shows "\<exists>ys. manifest (outcome_state (process_variants cfg env a p s key variants st)) =
             AList.map_entry key (\<lambda>l. l @ ys) (manifest st) \<and>
           (variants \<noteq> [] \<and> \<not> fst (snd (last variants)) \<and> \<not> snd (snd (last variants)) \<and>
            (\<exists>st'. process_variants cfg env a p s key variants st = Inr st') \<longrightarrow>
              length FORMATS \<le> length ys) \<and>
           filter is_manifest_write (trace (outcome_state (process_variants cfg env a p s key variants st))) =
             filter is_manifest_write (trace st) \<and>
           map_of (fs (outcome_state (process_variants cfg env a p s key variants st))) MANIFEST_FILE =
             map_of (fs st) MANIFEST_FILE"
proof (induction variants arbitrary: st)
  case Nil
  show ?case using map_entry_id[of key "manifest st"]
    by (intro exI[of _ "[]"]) (simp add: outcome_state_def)
next
  case (Cons v vs)
  obtain ys1 where 1:
    "manifest (outcome_state (process_variant cfg env a p s key st v)) =
       AList.map_entry key (\<lambda>l. l @ ys1) (manifest st)"
    "tag_check cfg (fs st) s v = Some False \<longrightarrow> ys1 = manifest_paths cfg s v FORMATS"
    "filter is_manifest_write (trace (outcome_state (process_variant cfg env a p s key st v))) =
       filter is_manifest_write (trace st)"
    "map_of (fs (outcome_state (process_variant cfg env a p s key st v))) MANIFEST_FILE =
       map_of (fs st) MANIFEST_FILE"
    using process_variant_outcome[where key=key and cfg=cfg and env=env and a=a and p=p and s=s
        and st=st and variant=v] by blast
  show ?case
  proof (cases "process_variant cfg env a p s key st v")
    case (Inl e)
    then have "outcome_state (process_variants cfg env a p s key (v # vs) st) =
               outcome_state (process_variant cfg env a p s key st v)"
      by simp
    moreover have "\<nexists>st'. process_variants cfg env a p s key (v # vs) st = Inr st'"
      using Inl by simp
    ultimately show ?thesis using 1 by auto
  next
    case (Inr st1)
    then have o: "outcome_state (process_variant cfg env a p s key st v) = st1"
      by (simp add: outcome_state_def)
    have r: "process_variants cfg env a p s key (v # vs) st =
             process_variants cfg env a p s key vs st1"
      using Inr by simp
    obtain ys2 where 2:
      "manifest (outcome_state (process_variants cfg env a p s key vs st1)) =
         AList.map_entry key (\<lambda>l. l @ ys2) (manifest st1)"
      "vs \<noteq> [] \<and> \<not> fst (snd (last vs)) \<and> \<not> snd (snd (last vs)) \<and>
         (\<exists>st'. process_variants cfg env a p s key vs st1 = Inr st') \<longrightarrow>
         length FORMATS \<le> length ys2"
      "filter is_manifest_write (trace (outcome_state (process_variants cfg env a p s key vs st1))) =
         filter is_manifest_write (trace st1)"
      "map_of (fs (outcome_state (process_variants cfg env a p s key vs st1))) MANIFEST_FILE =
         map_of (fs st1) MANIFEST_FILE"
      using Cons.IH[of st1] by blast
    have m: "manifest (outcome_state (process_variants cfg env a p s key (v # vs) st)) =
               AList.map_entry key (\<lambda>l. l @ ys1 @ ys2) (manifest st)"
      using 1(1) 2(1) unfolding o r by (simp add: map_entry_append)
    have len: "length FORMATS \<le> length (ys1 @ ys2)"
      if "\<not> fst (snd (last (v # vs)))" "\<not> snd (snd (last (v # vs)))"
         "\<exists>st'. process_variants cfg env a p s key (v # vs) st = Inr st'"
    proof (cases "vs = []")
      case True
      then have "tag_check cfg (fs st) s v = Some False"
        using that by (simp add: tag_check_def)
      then show ?thesis using 1(2) by (simp add: manifest_paths_def)
    next
      case False
      then show ?thesis using that 2(2) unfolding r by simp
    qed
    show ?thesis
      using m len 1(3,4) 2(3,4) unfolding o r
      by (intro exI[of _ "ys1 @ ys2"]) simp
  qed
qed

lemma process_svg_outcome:
  fixes a p s :: string and cfg :: config and env :: environment and st :: state
  defines "st' \<equiv> outcome_state (process_svg cfg env a p st s)"
  shows "loop_frame st st' \<and>
         (\<forall>k. k \<noteq> key_of cfg s \<or> s = [] \<longrightarrow> map_of (manifest st') k = map_of (manifest st) k) \<and>
         (s \<noteq> [] \<and> (\<exists>st''. process_svg cfg env a p st s = Inr st'') \<longrightarrow>
            (\<exists>l. map_of (manifest st') (key_of cfg s) = Some l \<and> length FORMATS \<le> length l))"
proof (cases "s = []")
  case True
  then have "st' = st" by (simp add: st'_def process_svg_def outcome_state_def)
  then show ?thesis using True by (simp add: loop_frame_refl)
next
  case False
  let ?key = "key_of cfg s"
  let ?st0 = "st\<lparr>manifest := AList.update ?key [] (manifest st)\<rparr>"
  have r: "process_svg cfg env a p st s = process_variants cfg env a p s ?key VARIANTS ?st0"
    using False by (simp add: process_svg_def Let_def)
  obtain ys where ys:
    "manifest st' = AList.map_entry ?key (\<lambda>l. l @ ys) (manifest ?st0)"
    "VARIANTS \<noteq> [] \<and> \<not> fst (snd (last VARIANTS)) \<and> \<not> snd (snd (last VARIANTS)) \<and>
       (\<exists>st''. process_variants cfg env a p s ?key VARIANTS ?st0 = Inr st'') \<longrightarrow>
       length FORMATS \<le> length ys"
    "filter is_manifest_write (trace st') = filter is_manifest_write (trace ?st0)"
    "map_of (fs st') MANIFEST_FILE = map_of (fs ?st0) MANIFEST_FILE"
    using process_variants_outcome[of cfg env a p s ?key VARIANTS ?st0]
    unfolding st'_def r by blast
  have m: "map_of (manifest st') = (map_of (manifest st))(?key \<mapsto> ys)"
    unfolding ys(1) by (simp add: map_of_map_entry update_conv')
  have d: "distinct (map fst (manifest st'))" if "distinct (map fst (manifest st))"
    unfolding ys(1) using that by (simp add: distinct_map_entry distinct_update)
  have "loop_frame st st'"
    using ys(3,4) d by (auto simp: loop_frame_def)
  moreover have "\<forall>k. k \<noteq> ?key \<or> s = [] \<longrightarrow> map_of (manifest st') k = map_of (manifest st) k"
    using False m by simp
  moreover have "\<exists>l. map_of (manifest st') ?key = Some l \<and> length FORMATS \<le> length l"
    if "\<exists>st''. process_svg cfg env a p st s = Inr st''"
    using that ys(2) m unfolding r by (simp add: VARIANTS_def)
  ultimately show ?thesis by blast
qed

lemma process_svgs_outcome:
  fixes a p :: string
  shows "loop_frame st (outcome_state (process_svgs cfg env a p SVGs st)) \<and>
         (\<forall>st'. process_svgs cfg env a p SVGs st = Inr st' \<longrightarrow>
            (\<forall>k. (\<exists>l. map_of (manifest st) k = Some l \<and> length FORMATS \<le> length l) \<or>
                  (\<exists>s \<in> set SVGs. s \<noteq> [] \<and> k = key_of cfg s) \<longrightarrow>
                  (\<exists>l. map_of (manifest st') k = Some l \<and> length FORMATS \<le> length l)))"
proof (induction SVGs arbitrary: st)
  case Nil
  show ?case by (simp add: outcome_state_def loop_frame_refl)
next
  case (Cons s SVGs)
  let ?o = "outcome_state (process_svg cfg env a p st s)"
  have 1: "loop_frame st ?o"
    "\<forall>k. k \<noteq> key_of cfg s \<or> s = [] \<longrightarrow> map_of (manifest ?o) k = map_of (manifest st) k"
    "s \<noteq> [] \<and> (\<exists>st''. process_svg cfg env a p st s = Inr st'') \<longrightarrow>
       (\<exists>l. map_of (manifest ?o) (key_of cfg s) = Some l \<and> length FORMATS \<le> length l)"
    using process_svg_outcome[of st cfg env a p s] by blast+
  show ?case
  proof (cases "process_svg cfg env a p st s")
    case (Inl e)
    then have "outcome_state (process_svgs cfg env a p (s # SVGs) st) = ?o" by simp
    moreover have "\<nexists>st'. process_svgs cfg env a p (s # SVGs) st = Inr st'" using Inl by simp
    ultimately show ?thesis using 1(1) by simp
  next
    case (Inr st1)
    then have o: "?o = st1" by (simp add: outcome_state_def)
    have r: "process_svgs cfg env a p (s # SVGs) st = process_svgs cfg env a p SVGs st1"
      using Inr by simp
    have ih: "loop_frame st1 (outcome_state (process_svgs cfg env a p SVGs st1))"
      "\<And>st' k. process_svgs cfg env a p SVGs st1 = Inr st' \<Longrightarrow>
          (\<exists>l. map_of (manifest st1) k = Some l \<and> length FORMATS \<le> length l) \<or>
          (\<exists>s \<in> set SVGs. s \<noteq> [] \<and> k = key_of cfg s) \<Longrightarrow>
          \<exists>l. map_of (manifest st') k = Some l \<and> length FORMATS \<le> length l"
      using Cons.IH[of st1] by blast+
    have step: "\<exists>l. map_of (manifest st1) k = Some l \<and> length FORMATS \<le> length l"
      if "(\<exists>l. map_of (manifest st) k = Some l \<and> length FORMATS \<le> length l) \<or>
          (s \<noteq> [] \<and> k = key_of cfg s)" for k
    proof (cases "s \<noteq> [] \<and> k = key_of cfg s")
      case True
      then show ?thesis using 1(3) Inr o by auto
    next
      case False
      then have "map_of (manifest st1) k = map_of (manifest st) k" using 1(2) o by auto
      then show ?thesis using that False by auto
    qed
    have "loop_frame st (outcome_state (process_svgs cfg env a p (s # SVGs) st))"
      unfolding r using 1(1) ih(1) o loop_frame_trans by metis
    moreover have "\<exists>l. map_of (manifest st') k = Some l \<and> length FORMATS \<le> length l"
      if "process_svgs cfg env a p (s # SVGs) st = Inr st'"
        "(\<exists>l. map_of (manifest st) k = Some l \<and> length FORMATS \<le> length l) \<or>
         (\<exists>s' \<in> set (s # SVGs). s' \<noteq> [] \<and> k = key_of cfg s')" for st' k
    proof -
      have "(\<exists>l. map_of (manifest st1) k = Some l \<and> length FORMATS \<le> length l) \<or>
            (\<exists>s \<in> set SVGs. s \<noteq> [] \<and> k = key_of cfg s)"
        using that(2) step[of k] by auto
      then show ?thesis using ih(2)[of st' k] that(1) unfolding r by blast
    qed
    ultimately show ?thesis by blast
  qed
qed

subsection \<open>Every source has renders listed\<close>

text \<open>
  Claim C10. With the built-in variants, the \<^verbatim>\<open>none\<close> variant includes neither placeholder,
  so the tag checks never skip it, whatever the files hold. After a run that reaches
  its end, every source the run has found therefore has a manifest list with at least
  one entry per output format, that is at least two entries: the list of a source that
  was found is never empty.
\<close>

theorem none_variant_always_listed:
  assumes run: "render_main cfg env fsys now = Inr st'"
    and s: "s \<in> set (SVGs_of cfg fsys)" "s \<noteq> []"
  shows "(\<forall>fsys'. tag_check cfg fsys' s (''none'', False, False) = Some False) \<and>
         (\<exists>l. map_of (manifest st') (key_of cfg s) = Some l \<and>
               length FORMATS \<le> length l \<and> 2 \<le> length l)"
proof -
  obtain backend where b: "resolve_backend cfg env fsys = Inr backend"
    using run by (cases "resolve_backend cfg env fsys") (simp_all add: render_main_def Let_def)
  let ?cfg1 = "cfg\<lparr>BACKEND_PATH := backend\<rparr>"
  let ?auth = "load_tag fsys (AUTH_TAG_FILE ?cfg1) (AUTH_TAG ?cfg1) ''Authorisation''"
  let ?print = "load_tag fsys (PRINT_TAG_FILE ?cfg1) (PRINT_TAG ?cfg1) ''Printing''"
  let ?st1 = "(initial_state fsys now)\<lparr>trace := snd ?auth @ snd ?print\<rparr>"
  let ?loop = "process_svgs ?cfg1 env (fst ?auth) (fst ?print) (SVGs_of ?cfg1 fsys) ?st1"
  obtain st2 where st2: "?loop = Inr st2" "st' = write_manifest st2"
    using run b by (cases ?loop) (simp_all add: render_main_def Let_def)
  have k: "key_of ?cfg1 s = key_of cfg s" by (simp add: key_of_def)
  have v: "SVGs_of ?cfg1 fsys = SVGs_of cfg fsys" by (simp add: SVGs_of_def)
  have "\<exists>l. map_of (manifest st2) (key_of ?cfg1 s) = Some l \<and> length FORMATS \<le> length l"
    using process_svgs_outcome[of ?st1 ?cfg1 env "fst ?auth" "fst ?print" "SVGs_of ?cfg1 fsys"]
      st2(1) s unfolding v by blast
  then have "\<exists>l. map_of (manifest st') (key_of cfg s) = Some l \<and> length FORMATS \<le> length l"
    unfolding k st2(2) by (simp add: write_manifest_def)
  moreover have "tag_check cfg fsys' s (''none'', False, False) = Some False" for fsys'
    by (simp add: tag_check_def)
  ultimately show ?thesis by (auto simp: FORMATS_def)
qed

theorem none_variant_always_listed_witness:
  "ex_s \<in> set (SVGs_of ex_cfg print_only_fs) \<and> ex_s \<noteq> [] \<and>
   (\<exists>st'. render_main ex_cfg ex_env print_only_fs 10 = Inr st' \<and>
          (\<exists>l. map_of (manifest st') (key_of ex_cfg ex_s) = Some l \<and> 2 \<le> length l))"
proof -
  have s: "ex_s \<in> set (SVGs_of ex_cfg print_only_fs)" by code_simp
  have n: "ex_s \<noteq> []" by code_simp
  have "case render_main ex_cfg ex_env print_only_fs 10 of Inl e \<Rightarrow> False | Inr st' \<Rightarrow> True"
    by code_simp
  then obtain st' where run: "render_main ex_cfg ex_env print_only_fs 10 = Inr st'"
    by (cases "render_main ex_cfg ex_env print_only_fs 10") auto
  show ?thesis
    using none_variant_always_listed[OF run s n] s n run by blast
qed


subsection \<open>Writing the manifest\<close>





subsection \<open>A source in the source directory itself\<close>

text \<open>
  Claim C3 says that a second run over unchanged inputs writes no tagged SVG and no
  output file and gives the same manifest. For a source that lies directly in an
  absolute source directory, line 242 leaves the directory of the source as it is and
  \<^verbatim>\<open>os.path.join\<close> then drops the render directory, so the first run writes the tagged
  SVGs next to the source. The second run finds them as sources: it tags and renders
  them, and its manifest has their keys.
\<close>

theorem second_run_of_top_level_source:
  "(case render_main top_cfg ex_env top_fs 10 of
      Inl x \<Rightarrow> None
    | Inr st1 \<Rightarrow>
        (case render_main top_cfg ex_env (fs st1) (clock st1) of
           Inl x \<Rightarrow> None
         | Inr st2 \<Rightarrow>
             Some (SVGs_of top_cfg top_fs, SVGs_of top_cfg (fs st1),
                   filter is_render_write (trace st2), manifest st1, manifest st2))) =
   Some ([''/w/Art/logo.svg''],
         [''/w/Art/logo.svg'', ''/w/Art/logo-auth.svg'', ''/w/Art/logo-none.svg''],
         [WriteTagged ''/w/Art/logo-auth-none.svg'',
          WriteOutput ''/w/Art/logo-auth-none.pdf'',
          WriteOutput ''/w/Art/logo-auth-none.png'',
          WriteTagged ''/w/Art/logo-none-none.svg'',
          WriteOutput ''/w/Art/logo-none-none.pdf'',
          WriteOutput ''/w/Art/logo-none-none.png''],
         [(''logo'', [''-auth.pdf'', ''-auth.png'', ''-none.pdf'', ''-none.png''])],
         [(''logo'', [''-auth.pdf'', ''-auth.png'', ''-none.pdf'', ''-none.png'']),
          (''logo-auth'', [''-auth-none.pdf'', ''-auth-none.png'']),
          (''logo-none'', [''-none-none.pdf'', ''-none-none.png''])])"
  by code_simp

text \<open>
  Claim C7 says that the manifest lists, for every format of every variant that is not
  skipped, the path of the output file relative to the render directory. For the same
  source the output files are written into the source directory, and line 313 cuts
  as many characters off their paths as the render directory has, plus one: what the
  manifest lists is not the path of any output file relative to the render directory.
\<close>

theorem manifest_of_top_level_source:
  "SOURCE_DIR top_cfg = ''/w/Art'' \<and> RENDER_DIR top_cfg = ''/w/Renders'' \<and>
   (case render_main top_cfg ex_env top_fs 10 of
      Inl x \<Rightarrow> None
    | Inr st' \<Rightarrow> Some (manifest st', filter is_render_write (trace st'))) =
   Some ([(''logo'', [''-auth.pdf'', ''-auth.png'', ''-none.pdf'', ''-none.png''])],
         [WriteTagged ''/w/Art/logo-auth.svg'',
          WriteOutput ''/w/Art/logo-auth.pdf'',
          WriteOutput ''/w/Art/logo-auth.png'',
          WriteTagged ''/w/Art/logo-none.svg'',
          WriteOutput ''/w/Art/logo-none.pdf'',
          WriteOutput ''/w/Art/logo-none.png'']) \<and>
   \<not> relative_to (RENDER_DIR top_cfg) ''/w/Art/logo-auth.pdf'' ''-auth.pdf'' \<and>
   r_out_of top_cfg ''/w/Art/logo.svg'' (''auth'', True, False) ''pdf'' = ''/w/Art/logo-auth.pdf''"
  by code_simp


subsection \<open>The manifest lists what is expected, not what was rendered\<close>

text \<open>
  A variant that passes the tag checks adds one path per format to
  the manifest list of its source, the path of the output file without the first
  characters that line 313 cuts off, whether the format was stale or up to date.
\<close>

theorem manifest_lists_every_format:
  fixes auth_tag_full print_tag_full :: string
  assumes go: "tag_check cfg (fs st) s variant = Some False"
    and key: "map_of (manifest st) key = Some l"
  shows "\<exists>st'. process_variant cfg env auth_tag_full print_tag_full s key st variant = Inr st' \<and>
           map_of (manifest st') key =
             Some (l @ [drop (length (RENDER_DIR cfg) + 1) (r_out_of cfg s variant ''pdf''),
                        drop (length (RENDER_DIR cfg) + 1) (r_out_of cfg s variant ''png'')])"
proof -
  obtain ys st' where o:
    "manifest (outcome_state (process_variant cfg env auth_tag_full print_tag_full s key st variant)) =
       AList.map_entry key (\<lambda>l. l @ ys) (manifest st)"
    "ys = manifest_paths cfg s variant FORMATS"
    "process_variant cfg env auth_tag_full print_tag_full s key st variant = Inr st'"
    using process_variant_outcome[where a=auth_tag_full and p=print_tag_full and s=s and key=key
        and cfg=cfg and env=env and st=st and variant=variant] go
    by blast
  have "manifest st' = AList.map_entry key (\<lambda>l. l @ ys) (manifest st)"
    using o(1,3) by (simp add: outcome_state_def)
  then have "map_of (manifest st') key = Some (l @ ys)"
    using key by (simp add: map_of_map_entry)
  then show ?thesis
    using o(2,3) by (simp add: manifest_paths_def FORMATS_def)
qed

theorem manifest_lists_every_format_witness:
  "tag_check ex_cfg (fs (ex_state ex_fs_tagged)) ex_s (''none'', False, False) = Some False \<and>
   map_of (manifest (ex_state ex_fs_tagged)) ''Posters/logo'' = Some [] \<and>
   stale (fs (ex_state ex_fs_tagged)) ''/w/Renders/Posters/logo-none.svg''
     ''/w/Renders/Posters/logo-none.png'' \<and>
   \<not> stale (fs (ex_state ex_fs_tagged)) ''/w/Renders/Posters/logo-none.svg''
     ''/w/Renders/Posters/logo-none.pdf'' \<and>
   (\<exists>st'. process_variant ex_cfg ex_env ''Approved'' ''Print Shop'' ex_s ''Posters/logo''
             (ex_state ex_fs_tagged) (''none'', False, False) = Inr st' \<and>
          map_of (manifest st') ''Posters/logo'' =
            Some [''Posters/logo-none.pdf'', ''Posters/logo-none.png''])"
proof -
  have g: "tag_check ex_cfg (fs (ex_state ex_fs_tagged)) ex_s (''none'', False, False) = Some False"
    by code_simp
  have k: "map_of (manifest (ex_state ex_fs_tagged)) ''Posters/logo'' = Some []"
    by code_simp
  have s1: "stale (fs (ex_state ex_fs_tagged)) ''/w/Renders/Posters/logo-none.svg''
              ''/w/Renders/Posters/logo-none.png''"
    by code_simp
  have s2: "\<not> stale (fs (ex_state ex_fs_tagged)) ''/w/Renders/Posters/logo-none.svg''
              ''/w/Renders/Posters/logo-none.pdf''"
    by code_simp
  have p1: "drop (length (RENDER_DIR ex_cfg) + 1)
              (r_out_of ex_cfg ex_s (''none'', False, False) ''pdf'') = ''Posters/logo-none.pdf''"
    by code_simp
  have p2: "drop (length (RENDER_DIR ex_cfg) + 1)
              (r_out_of ex_cfg ex_s (''none'', False, False) ''png'') = ''Posters/logo-none.png''"
    by code_simp
  have "\<exists>st'. process_variant ex_cfg ex_env ''Approved'' ''Print Shop'' ex_s ''Posters/logo''
             (ex_state ex_fs_tagged) (''none'', False, False) = Inr st' \<and>
          map_of (manifest st') ''Posters/logo'' =
            Some [''Posters/logo-none.pdf'', ''Posters/logo-none.png'']"
    using manifest_lists_every_format[OF g k, where auth_tag_full="''Approved''"
        and print_tag_full="''Print Shop''" and env=ex_env]
    unfolding p1 p2 by simp
  with g k s1 s2 show ?thesis by blast
qed

subsection \<open>Processing a variant again\<close>

lemma write_exports_written:
  "out \<in> set (export_paths args) \<Longrightarrow>
     \<exists>f. map_of (fs (write_exports env svg args st)) out = Some f \<and> clock st \<le> mtime f"
proof (induction env svg args st rule: write_exports.induct)
  case (1 env svg flag out' rest st)
  let ?st1 = "st\<lparr>fs := AList.update out' \<lparr>content = render env flag svg, mtime = clock st\<rparr> (fs st),
                   clock := clock st + 1, trace := trace st @ [WriteOutput out']\<rparr>"
  show ?case
  proof (cases "out \<in> set (export_paths rest)")
    case True
    then obtain f where "map_of (fs (write_exports env svg rest ?st1)) out = Some f"
      "clock ?st1 \<le> mtime f"
      using 1(1) by blast
    then show ?thesis by auto
  next
    case False
    then have "out = out'" using 1(2) by simp
    moreover have "map_of (fs (write_exports env svg rest ?st1)) out = map_of (fs ?st1) out"
      using False by (rule write_exports_frame)
    ultimately show ?thesis by (simp add: update_conv')
  qed
qed simp_all

lemma r_out_ne_source:
  assumes "endswith s ''.svg''" and "ftype = ''pdf'' \<or> ftype = ''png''"
  shows "r_out_of cfg s' variant ftype \<noteq> s"
proof
  assume e: "r_out_of cfg s' variant ftype = s"
  obtain t where t: "s = t @ ''.svg''" using assms(1) endswith_iff by blast
  obtain x where x: "r_out_of cfg s' variant ftype = x @ ''.'' @ ftype"
    by (simp add: r_out_of_def Let_def)
  have "x @ (''.'' @ ftype) = t @ ''.svg''" using e t x by simp
  moreover have "length (''.'' @ ftype) = length ''.svg''" using assms(2) by auto
  ultimately have "''.'' @ ftype = ''.svg''" by (metis append_eq_append_conv)
  then show False using assms(2) by auto
qed

lemma r_out_pdf_ne_png: "r_out_of cfg s variant ''pdf'' \<noteq> r_out_of cfg s variant ''png''"
  by (simp add: r_out_of_def Let_def)

lemma stale_batch_paths:
  "export_paths (batch cfg s variant fsys FORMATS) =
     filter (\<lambda>r_out. stale fsys (r_tag_of cfg s variant) r_out)
       [r_out_of cfg s variant ''pdf'', r_out_of cfg s variant ''png'']"
  by (simp add: batch_def FORMATS_def export_flag_def)

lemma batch_empty:
  "batch cfg s variant fsys FORMATS = [] \<longleftrightarrow>
     \<not> stale fsys (r_tag_of cfg s variant) (r_out_of cfg s variant ''pdf'') \<and>
     \<not> stale fsys (r_tag_of cfg s variant) (r_out_of cfg s variant ''png'')"
  by (simp add: batch_def FORMATS_def export_flag_def)

text \<open>
  Processing a variant of a source a second time, right after the
  first, changes no file and has no effect outside the process: the tagged SVG holds
  the candidate text already and no output is older than it. The source is not its own
  tagged SVG, and the tagged SVG that may have been there before the first pass was
  last modified before it.
\<close>

theorem second_pass_writes_nothing:
  fixes auth_tag_full print_tag_full :: string
  assumes src: "map_of (fs st) s = Some src"
    and svg: "endswith s ''.svg''"
    and el: "eligible cfg (content src) variant"
    and past: "in_the_past st (r_tag_of cfg s variant)"
    and apart: "r_tag_of cfg s variant \<noteq> s"
    and first: "process_variant cfg env auth_tag_full print_tag_full s key st variant = Inr st1"
  shows "\<exists>st2. process_variant cfg env auth_tag_full print_tag_full s key st1 variant = Inr st2 \<and>
           fs st2 = fs st1 \<and> trace st2 = trace st1"
proof -
  let ?r_tag = "r_tag_of cfg s variant"
  let ?a = "auth_tag_var auth_tag_full variant" and ?p = "print_tag_var print_tag_full variant"
  let ?stt = "tag_svg cfg s ?r_tag ?a ?p st"
  let ?args = "batch cfg s variant (fs ?stt) FORMATS"
  let ?pdf = "r_out_of cfg s variant ''pdf''" and ?png = "r_out_of cfg s variant ''png''"
  have go: "tag_check cfg (fs st) s variant = Some False"
    using eligible_tag_check[OF src, of cfg variant] el by simp
  obtain stc where stc:
    "st1 = (if ?args \<noteq> [] then run_backend cfg env ?args ?r_tag stc else stc)"
    "fs stc = fs ?stt" "clock stc = clock ?stt"
    using process_variant_go[OF go, where a=auth_tag_full and p=print_tag_full and env=env and key=key]
      first by auto
  have ck: "clock stc = clock st + 1" using stc(3) by (simp add: tag_svg_fields)
  \<comment> \<open>the tagged SVG after the first pass\<close>
  obtain tag where tag: "map_of (fs ?stt) ?r_tag = Some tag"
    "content tag = sed_output cfg (fs st) s ?a ?p"
    using tag_svg_content[OF past] by blast
  have tag_time: "mtime tag \<le> clock st"
  proof (cases "map_of (fs st) ?r_tag")
    case None
    then show ?thesis using tag(1) tag_svg_written[of st ?r_tag cfg s ?a ?p]
      by (auto simp: update_conv')
  next
    case (Some old)
    have o: "mtime old < clock st" using past Some by (simp add: in_the_past_def)
    show ?thesis
    proof (cases "content old = sed_output cfg (fs st) s ?a ?p")
      case True
      then show ?thesis using Some o tag(1) tag_svg_kept[of st ?r_tag old cfg s ?a ?p] by auto
    next
      case False
      then show ?thesis using Some o tag(1) tag_svg_written[of st ?r_tag cfg s ?a ?p]
        by (auto simp: update_conv')
    qed
  qed
  have exp: "set (export_paths ?args) \<subseteq> {?pdf, ?png}"
    by (rule export_paths_batch)
  have tag1: "map_of (fs st1) ?r_tag = Some tag"
    using tag(1) stc(1,2) r_tag_not_exported[OF svg, of cfg variant "fs ?stt"]
    by (simp add: run_backend_frame)
  have src_t: "map_of (fs ?stt) s = Some src"
    using src apart by (simp add: tag_svg_frame)
  have "s \<notin> set (export_paths ?args)"
    using exp r_out_ne_source[OF svg, of "''pdf''" cfg s variant]
      r_out_ne_source[OF svg, of "''png''" cfg s variant] by auto
  then have src1: "map_of (fs st1) s = Some src"
    using src_t stc(1,2) by (simp add: run_backend_frame)
  \<comment> \<open>every output is at least as new as the tagged SVG\<close>
  have fresh: "\<not> stale (fs st1) ?r_tag r_out" if r: "r_out = ?pdf \<or> r_out = ?png" for r_out
  proof (cases "stale (fs ?stt) ?r_tag r_out")
    case True
    then have m: "r_out \<in> set (export_paths ?args)"
      unfolding stale_batch_paths set_filter using r by auto
    then have ne: "?args \<noteq> []" by auto
    have "run_backend cfg env ?args ?r_tag stc =
            write_exports env (content tag) ?args
              (stc\<lparr>trace := trace stc @ [Invoke ([BACKEND_PATH cfg, ''-z''] @ ?args @ [''-f'', ?r_tag])]\<rparr>)"
      using tag(1) stc(2) by (simp add: run_backend_def Let_def)
    then obtain f where "map_of (fs st1) r_out = Some f" "clock stc \<le> mtime f"
      using write_exports_written[OF m, of env "content tag"
          "stc\<lparr>trace := trace stc @ [Invoke ([BACKEND_PATH cfg, ''-z''] @ ?args @ [''-f'', ?r_tag])]\<rparr>"]
        stc(1) ne by auto
    then show ?thesis using tag1 tag_time ck by (simp add: stale_def)
  next
    case False
    then have "r_out \<notin> set (export_paths ?args)"
      unfolding stale_batch_paths set_filter by blast
    then have "map_of (fs st1) r_out = map_of (fs ?stt) r_out"
      using stc(1,2) by (simp add: run_backend_frame)
    then show ?thesis using False tag(1) tag1 by (auto simp: stale_def split: option.splits)
  qed
  \<comment> \<open>the second pass\<close>
  have go1: "tag_check cfg (fs st1) s variant = Some False"
    using eligible_tag_check[OF src1, of cfg variant] el by simp
  have same: "content tag = sed_output cfg (fs st1) s ?a ?p"
    using tag(2) src src1 by (simp add: sed_output_def)
  let ?stt1 = "tag_svg cfg s ?r_tag ?a ?p st1"
  have kept: "fs ?stt1 = fs st1" "trace ?stt1 = trace st1"
    using tag_svg_kept[OF tag1 same] by simp_all
  have "batch cfg s variant (fs ?stt1) FORMATS = []"
    unfolding kept(1) batch_empty using fresh by simp
  then obtain st2 where
    "process_variant cfg env auth_tag_full print_tag_full s key st1 variant = Inr st2"
    "fs st2 = fs ?stt1" "trace st2 = trace ?stt1"
    using process_variant_go[OF go1, where a=auth_tag_full and p=print_tag_full and env=env and key=key]
    by auto
  then show ?thesis using kept by auto
qed

theorem second_pass_writes_nothing_witness:
  "map_of (fs (ex_state ex_fs)) ex_s = Some ex_src \<and> endswith ex_s ''.svg'' \<and>
   eligible ex_cfg (content ex_src) (''auth'', True, False) \<and>
   in_the_past (ex_state ex_fs) (r_tag_of ex_cfg ex_s (''auth'', True, False)) \<and>
   r_tag_of ex_cfg ex_s (''auth'', True, False) \<noteq> ex_s \<and>
   (\<exists>st1 st2.
      process_variant ex_cfg ex_env ''Approved'' ''Print Shop'' ex_s ''Posters/logo''
        (ex_state ex_fs) (''auth'', True, False) = Inr st1 \<and>
      trace st1 \<noteq> trace (ex_state ex_fs) \<and>
      process_variant ex_cfg ex_env ''Approved'' ''Print Shop'' ex_s ''Posters/logo''
        st1 (''auth'', True, False) = Inr st2 \<and>
      fs st2 = fs st1 \<and> trace st2 = trace st1)"
proof -
  have src: "map_of (fs (ex_state ex_fs)) ex_s = Some ex_src" by code_simp
  have svg: "endswith ex_s ''.svg''" by code_simp
  have el: "eligible ex_cfg (content ex_src) (''auth'', True, False)" by code_simp
  have past: "in_the_past (ex_state ex_fs) (r_tag_of ex_cfg ex_s (''auth'', True, False))"
    by code_simp
  have apart: "r_tag_of ex_cfg ex_s (''auth'', True, False) \<noteq> ex_s" by code_simp
  have "case process_variant ex_cfg ex_env ''Approved'' ''Print Shop'' ex_s ''Posters/logo''
               (ex_state ex_fs) (''auth'', True, False) of
          Inl x \<Rightarrow> False | Inr st1 \<Rightarrow> trace st1 \<noteq> trace (ex_state ex_fs)"
    by code_simp
  then obtain st1 where first:
    "process_variant ex_cfg ex_env ''Approved'' ''Print Shop'' ex_s ''Posters/logo''
       (ex_state ex_fs) (''auth'', True, False) = Inr st1"
    "trace st1 \<noteq> trace (ex_state ex_fs)"
    by (cases "process_variant ex_cfg ex_env ''Approved'' ''Print Shop'' ex_s ''Posters/logo''
               (ex_state ex_fs) (''auth'', True, False)") auto
  show ?thesis
    using second_pass_writes_nothing[OF src svg el past apart first(1)] src svg el past apart first
    by blast
qed

subsection \<open>A source below a directory of the source directory\<close>

lemma upto_last_tail: "c \<notin> set w \<Longrightarrow> upto_last c (u @ c # w) = u @ [c]"
proof -
  assume a: "c \<notin> set w"
  have "dropWhile (\<lambda>x. x \<noteq> c) (rev w @ c # rev u) = dropWhile (\<lambda>x. x \<noteq> c) (c # rev u)"
    by (rule dropWhile_append2) (use a in auto)
  then show ?thesis by (simp add: upto_last_def)
qed

lemma last_absent: "c \<notin> set w \<Longrightarrow> upto_last c w = [] \<and> after_last c w = w"
proof -
  assume a: "c \<notin> set w"
  have all: "\<forall>x \<in> set (rev w). x \<noteq> c" using a by auto
  have 1: "dropWhile (\<lambda>x. x \<noteq> c) (rev w) = []"
    using all by (rule dropWhile_eq_Nil_conv[THEN iffD2])
  have 2: "takeWhile (\<lambda>x. x \<noteq> c) (rev w) = rev w"
    using all by (rule takeWhile_eq_all_conv[THEN iffD2])
  show ?thesis unfolding upto_last_def after_last_def 1 2 by simp
qed

lemma str_replace_prefix:
  "old \<noteq> [] \<Longrightarrow> str_replace old new (old @ t) = new @ str_replace old new t"
proof -
  assume ne: "old \<noteq> []"
  then obtain c cs where c: "old @ t = c # cs" by (cases old) auto
  have "startswith (old @ t) old" by (simp add: startswith_iff)
  then have "str_replace old new (c # cs) = new @ str_replace old new (drop (length old) (c # cs))"
    using ne c by simp
  then show ?thesis using c by (metis append_eq_conv_conj)
qed

lemma str_replace_absent: "\<not> contains old s \<Longrightarrow> str_replace old new s = s"
  by (induction old new s rule: str_replace.induct) auto

lemma startswith_slash: "startswith x ''/'' \<longleftrightarrow> x \<noteq> [] \<and> hd x = CHR ''/''"
  by (cases x) auto

lemma endswith_slash: "endswith a ''/'' \<longleftrightarrow> a \<noteq> [] \<and> last a = CHR ''/''"
  by (cases a rule: rev_cases) (auto simp: endswith_def)

lemma path_join_relative:
  assumes "a \<noteq> []" "last a \<noteq> CHR ''/''" "b = [] \<or> hd b \<noteq> CHR ''/''"
  shows "path_join a b = a @ ''/'' @ b"
  using assms by (auto simp: path_join_def startswith_slash endswith_slash)

lemma splitext_below:
  assumes "CHR ''/'' \<notin> set base"
  shows "splitext (d @ ''/'' @ base) = (d @ ''/'' @ fst (splitext base), snd (splitext base))"
proof -
  have 1: "upto_last CHR ''/'' (d @ ''/'' @ base) = d @ ''/''"
    "after_last CHR ''/'' (d @ ''/'' @ base) = base"
    using assms upto_last_tail[of "CHR ''/''" base d] after_last_tail[of "CHR ''/''" base d]
    by simp_all
  have 2: "upto_last CHR ''/'' base = []" "after_last CHR ''/'' base = base"
    using assms last_absent by blast+
  show ?thesis
    unfolding splitext_def 1 2 Let_def by simp
qed

lemma path_split_below:
  assumes "sub \<noteq> []" "last sub \<noteq> CHR ''/''" "CHR ''/'' \<notin> set base"
  shows "path_split (d @ ''/'' @ sub @ ''/'' @ base) = (d @ ''/'' @ sub, base)"
proof -
  let ?s = "d @ ''/'' @ sub @ ''/'' @ base"
  have s: "?s = (d @ ''/'' @ sub) @ CHR ''/'' # base" by simp
  have 1: "upto_last CHR ''/'' ?s = (d @ ''/'' @ sub) @ ''/''"
    unfolding s using assms(3) by (rule upto_last_tail)
  have 2: "after_last CHR ''/'' ?s = base"
    unfolding s using assms(3) by (rule after_last_tail)
  have 3: "(d @ ''/'' @ sub) @ ''/'' \<noteq> replicate n CHR ''/''" for n
  proof
    assume "(d @ ''/'' @ sub) @ ''/'' = replicate n CHR ''/''"
    then have "set ((d @ ''/'' @ sub) @ ''/'') \<subseteq> {CHR ''/''}"
      by (metis set_replicate_conv_if empty_subsetI subset_refl)
    moreover have "last sub \<in> set sub" using assms(1) by simp
    ultimately show False using assms(2) by auto
  qed
  have 4: "rev (dropWhile (\<lambda>x. x = CHR ''/'') (rev ((d @ ''/'' @ sub) @ ''/''))) = d @ ''/'' @ sub"
  proof -
    obtain b l where b: "sub = b @ [l]" "l \<noteq> CHR ''/''"
      using assms(1,2) by (metis append_butlast_last_id)
    show ?thesis unfolding b(1) using b(2) by simp
  qed
  have 0: "(d @ ''/'' @ sub) @ ''/'' \<noteq> []" by simp
  show ?thesis
    unfolding path_split_def 1 2 Let_def
    by (simp only: 0 3 4 simp_thms if_True)
qed

text \<open>
  For a source that lies in a directory below the source directory,
  the key is the path of the source below the source directory without its extension,
  the tagged SVG and the output files lie below the render directory in the same
  directory, and what the manifest lists for an output file is its path relative to
  the render directory. The directory below the source directory does not itself hold
  the name of the source directory, and the render directory has no slash at its end.
\<close>

theorem paths_of_source_in_subdirectory:
  assumes s: "s = SOURCE_DIR cfg @ ''/'' @ sub @ ''/'' @ base"
    and sub: "sub \<noteq> []" "hd sub \<noteq> CHR ''/''" "last sub \<noteq> CHR ''/''"
      "\<not> contains (SOURCE_DIR cfg @ ''/'') sub"
    and base: "CHR ''/'' \<notin> set base"
    and rd: "RENDER_DIR cfg \<noteq> []" "last (RENDER_DIR cfg) \<noteq> CHR ''/''"
  shows "key_of cfg s = sub @ ''/'' @ fst (splitext base) \<and>
         r_tag_of cfg s variant =
           RENDER_DIR cfg @ ''/'' @ sub @ ''/'' @ fst (splitext base) @ ''-'' @ fst variant @
             snd (splitext base) \<and>
         r_out_of cfg s variant ftype =
           RENDER_DIR cfg @ ''/'' @ sub @ ''/'' @ fst (splitext base) @ ''-'' @ fst variant @
             ''.'' @ ftype \<and>
         relative_to (RENDER_DIR cfg) (r_out_of cfg s variant ftype)
           (drop (length (RENDER_DIR cfg) + 1) (r_out_of cfg s variant ftype))"
proof -
  let ?root = "fst (splitext base)" and ?ext = "snd (splitext base)"
  have k: "key_of cfg s = sub @ ''/'' @ ?root"
    unfolding key_of_def s using splitext_below[OF base, of sub] by simp
  have ps: "path_split s = (SOURCE_DIR cfg @ ''/'' @ sub, base)"
    unfolding s using sub(1,3) base by (rule path_split_below)
  have "str_replace (SOURCE_DIR cfg @ ''/'') [] ((SOURCE_DIR cfg @ ''/'') @ sub) = sub"
    using str_replace_prefix[of "SOURCE_DIR cfg @ ''/''" "[]" sub] str_replace_absent[OF sub(4)]
    by simp
  then have rdir: "rdir_of cfg s = RENDER_DIR cfg @ ''/'' @ sub"
    unfolding rdir_of_def ps using path_join_relative[OF rd, of sub] sub(2) by simp
  have nr: "rdir_of cfg s \<noteq> []" "last (rdir_of cfg s) \<noteq> CHR ''/''"
    unfolding rdir using sub(1,3) by simp_all
  have root: "?root @ ?ext = base" by (rule splitext_append)
  have hd_ok: "x = [] \<or> hd (?root @ ''-'' @ x) \<noteq> CHR ''/''" "hd (?root @ ''-'' @ x) \<noteq> CHR ''/''" for x
  proof -
    have "hd (?root @ ''-'' @ x) \<noteq> CHR ''/''"
    proof (cases "?root")
      case Nil
      then show ?thesis by simp
    next
      case (Cons c cs)
      then have "c \<in> set base" using root by (metis list.set_intros(1) set_append UnI1)
      then show ?thesis using Cons base by auto
    qed
    then show "x = [] \<or> hd (?root @ ''-'' @ x) \<noteq> CHR ''/''" "hd (?root @ ''-'' @ x) \<noteq> CHR ''/''"
      by simp_all
  qed
  have t: "r_tag_of cfg s variant =
             RENDER_DIR cfg @ ''/'' @ sub @ ''/'' @ ?root @ ''-'' @ fst variant @ ?ext"
    unfolding r_tag_of_def ps Let_def snd_conv
    using path_join_relative[OF nr, of "?root @ ''-'' @ fst variant @ ?ext"]
      hd_ok(2)[of "fst variant @ ?ext"]
    by (simp add: rdir)
  have o: "r_out_of cfg s variant ftype =
             RENDER_DIR cfg @ ''/'' @ sub @ ''/'' @ ?root @ ''-'' @ fst variant @ ''.'' @ ftype"
    unfolding r_out_of_def ps Let_def snd_conv
    using path_join_relative[OF nr, of "?root @ ''-'' @ fst variant"]
      hd_ok(2)[of "fst variant"]
    by (simp add: rdir)
  have r: "relative_to (RENDER_DIR cfg) (r_out_of cfg s variant ftype)
             (drop (length (RENDER_DIR cfg) + 1) (r_out_of cfg s variant ftype))"
    unfolding o relative_to_def by simp
  from k t o r show ?thesis by blast
qed

theorem paths_of_source_in_subdirectory_witness:
  "ex_s = SOURCE_DIR ex_cfg @ ''/'' @ ''Posters'' @ ''/'' @ ''logo.svg'' \<and>
   key_of ex_cfg ex_s = ''Posters/logo'' \<and>
   r_tag_of ex_cfg ex_s (''both'', True, True) = ''/w/Renders/Posters/logo-both.svg'' \<and>
   r_out_of ex_cfg ex_s (''both'', True, True) ''png'' = ''/w/Renders/Posters/logo-both.png'' \<and>
   relative_to (RENDER_DIR ex_cfg) (r_out_of ex_cfg ex_s (''both'', True, True) ''png'')
     (drop (length (RENDER_DIR ex_cfg) + 1) (r_out_of ex_cfg ex_s (''both'', True, True) ''png''))"
proof -
  have s: "ex_s = SOURCE_DIR ex_cfg @ ''/'' @ ''Posters'' @ ''/'' @ ''logo.svg''" by code_simp
  have sub: "''Posters'' \<noteq> []" "hd ''Posters'' \<noteq> CHR ''/''" "last ''Posters'' \<noteq> CHR ''/''"
    "\<not> contains (SOURCE_DIR ex_cfg @ ''/'') ''Posters''"
    by code_simp+
  have base: "CHR ''/'' \<notin> set ''logo.svg''" by simp
  have rd: "RENDER_DIR ex_cfg \<noteq> []" "last (RENDER_DIR ex_cfg) \<noteq> CHR ''/''" by code_simp+
  have e: "splitext ''logo.svg'' = (''logo'', ''.svg'')" by code_simp
  have r: "RENDER_DIR ex_cfg = ''/w/Renders''" by (simp add: ex_cfg_def)
  show ?thesis
    using paths_of_source_in_subdirectory[OF s sub base rd, of "(''both'', True, True)" "''png''"] s
    unfolding e r by (auto simp: relative_to_def)
qed

end
